theory Spec2Isabelle
  imports Main
begin

section \<open>Python strings and cell values\<close>

text \<open>
  The two modules under verification, \<^verbatim>\<open>gene_editing_processor.py\<close> and
  \<^verbatim>\<open>mutation_highlighter.py\<close>, work on the text of spreadsheet cells. Cell text is
  modelled as \<^typ>\<open>string\<close> over the ASCII alphabet (base letters, digits, punctuation):
  \<open>upper\<close>, \<open>islower\<close>, \<open>strip\<close> and the regular-expression classes \<open>\d\<close>, \<open>\w\<close>,
  \<open>\s\<close> are Python's restricted to ASCII.
\<close>

definition is_space :: "char \<Rightarrow> bool" where
  \<comment> \<open>\<^verbatim>\<open>str.isspace\<close> on ASCII: blank, TAB, LF, VT, FF, CR and the separators 0x1C..0x1F\<close>
  "is_space c = (c \<in> set [CHR '' '', CHR 0x09, CHR 0x0A, CHR 0x0B, CHR 0x0C, CHR 0x0D,
                           CHR 0x1C, CHR 0x1D, CHR 0x1E, CHR 0x1F])"

definition strip :: "string \<Rightarrow> string" where
  "strip s = rev (dropWhile is_space (rev (dropWhile is_space s)))"

definition upper_char :: "char \<Rightarrow> char" where
  "upper_char c =
     (case map_of (zip ''abcdefghijklmnopqrstuvwxyz'' ''ABCDEFGHIJKLMNOPQRSTUVWXYZ'') c of
        Some u \<Rightarrow> u
      | None \<Rightarrow> c)"

definition upper :: "string \<Rightarrow> string" where
  "upper s = map upper_char s"

definition islower_char :: "char \<Rightarrow> bool" where
  \<comment> \<open>\<^verbatim>\<open>c.islower()\<close> for a one-character string\<close>
  "islower_char c = (c \<in> set ''abcdefghijklmnopqrstuvwxyz'')"

definition is_digit :: "char \<Rightarrow> bool" where
  "is_digit c = (c \<in> set ''0123456789'')"

definition is_word_char :: "char \<Rightarrow> bool" where
  \<comment> \<open>the class \<open>\w\<close>\<close>
  "is_word_char c =
     (c \<in> set ''abcdefghijklmnopqrstuvwxyzABCDEFGHIJKLMNOPQRSTUVWXYZ0123456789_'')"

definition is_base :: "char \<Rightarrow> bool" where
  \<comment> \<open>the class \<open>[ATCG]\<close>\<close>
  "is_base c = (c \<in> set ''ATCG'')"

definition hexval :: "char \<Rightarrow> int option" where
  "hexval c =
     map_of (zip ''0123456789abcdefABCDEF''
               [0, 1, 2, 3, 4, 5, 6, 7, 8, 9, 10, 11, 12, 13, 14, 15, 10, 11, 12, 13, 14, 15]) c"

definition is_int_space :: "char \<Rightarrow> bool" where
  \<comment> \<open>the white space \<^verbatim>\<open>int\<close> skips around the digits of an ASCII string: blank, TAB, LF,
      VT, FF, CR (not the separators 0x1C..0x1F, which \<^verbatim>\<open>str.isspace\<close> accepts)\<close>
  "is_int_space c = (c \<in> set [CHR '' '', CHR 0x09, CHR 0x0A, CHR 0x0B, CHR 0x0C, CHR 0x0D])"

definition int16_pair :: "char \<Rightarrow> char \<Rightarrow> int option" where
  \<comment> \<open>\<^verbatim>\<open>int(s, 16)\<close> for a two-character \<open>s\<close>; \<open>None\<close> is the \<^verbatim>\<open>ValueError\<close>. Besides two
      hex digits Python accepts a sign and one digit, and a digit beside white space.\<close>
  "int16_pair a b =
     (case (hexval a, hexval b) of
        (Some x, Some y) \<Rightarrow> Some (16 * x + y)
      | (None, Some y) \<Rightarrow>
          (if a = CHR ''+'' \<or> is_int_space a then Some y
           else if a = CHR ''-'' then Some (- y)
           else None)
      | (Some x, None) \<Rightarrow> (if is_int_space b then Some x else None)
      | (None, None) \<Rightarrow> None)"

text \<open>
  A cell value as \<^verbatim>\<open>openpyxl\<close> hands it over: \<^verbatim>\<open>None\<close>, a \<^verbatim>\<open>str\<close>, a
  \<^verbatim>\<open>CellRichText\<close> (a list of runs, each with its text and, when the run has a font colour,
  the \<^verbatim>\<open>rgb\<close> string of that colour), or a value of another type (number, date, bool), which
  the code under verification only ever reads through \<^verbatim>\<open>str(v)\<close> and its truth value.
\<close>

datatype cell_value =
    VNone
  | VStr string
  | VRich "(string \<times> string option) list"
  | VOther string bool

fun py_str :: "cell_value \<Rightarrow> string" where
  "py_str VNone = ''None''"
| "py_str (VStr s) = s"
| "py_str (VRich parts) = concat (map fst parts)"
| "py_str (VOther s t) = s"

fun truthy :: "cell_value \<Rightarrow> bool" where
  "truthy VNone = False"
| "truthy (VStr s) = (s \<noteq> [])"
| "truthy (VRich parts) = (parts \<noteq> [])"
| "truthy (VOther s t) = t"

text \<open>
  A cell: its value, the \<^verbatim>\<open>rgb\<close> string of its fill (\<^verbatim>\<open>cell.fill.start_color.rgb\<close>, \<open>None\<close>
  when one of the three is missing or the \<^verbatim>\<open>rgb\<close> is not a string), the \<^verbatim>\<open>rgb\<close> string of its
  font colour (\<^verbatim>\<open>cell.font.color.rgb\<close>), and a handle for the rest of its style (border,
  alignment, number format), which the code copies and never reads.
\<close>

record cell =
  cvalue :: cell_value
  fill_rgb :: "string option"
  font_rgb :: "string option"
  style :: nat

section \<open>The fill-colour classifier\<close>

text \<open>
  \<^verbatim>\<open>GeneEditingProcessor._is_row_highlighted\<close>. Its loop body, for one cell whose fill colour
  is the string \<open>color\<close>:
  \<^verbatim>\<open>
    if color and isinstance(color, str) and len(color) >= 6:
        try:
            r = int(color[-6:-4], 16); g = int(color[-4:-2], 16); b = int(color[-2:], 16)
            if r > 240 and g > 240 and b > 240: continue
            if r == 0 and g == 0 and b == 0 and color.upper() == '00000000': continue
            if r > 200 and g > 200 and b < 100: return True, "yellow"
            elif g > 180 and g > r and g > b and b < 120: return True, "green"
            elif b > 150 and b > r and b > g: return True, "blue"
            elif r > 200 and b > 150 and g < 180: return True, "pink"
            elif not (r < 50 and g < 50 and b < 50):
                if r > 80 or g > 80 or b > 80: return True, "other"
        except: pass
  \<close>
\<close>

definition three_channels ::
  "char \<Rightarrow> char \<Rightarrow> char \<Rightarrow> char \<Rightarrow> char \<Rightarrow> char \<Rightarrow> (int \<times> int \<times> int) option" where
  \<comment> \<open>the three \<^verbatim>\<open>int(.., 16)\<close> of six characters; \<open>None\<close> when one of them raises\<close>
  "three_channels r1 r2 g1 g2 b1 b2 =
     (case int16_pair r1 r2 of
        None \<Rightarrow> None
      | Some r \<Rightarrow>
          (case int16_pair g1 g2 of
             None \<Rightarrow> None
           | Some g \<Rightarrow>
               (case int16_pair b1 b2 of
                  None \<Rightarrow> None
                | Some b \<Rightarrow> Some (r, g, b))))"

definition channels :: "string \<Rightarrow> (int \<times> int \<times> int) option" where
  \<comment> \<open>\<^verbatim>\<open>color[-6:-4]\<close>, \<^verbatim>\<open>color[-4:-2]\<close>, \<^verbatim>\<open>color[-2:]\<close>; \<open>None\<close> also when
      \<^verbatim>\<open>len(color) < 6\<close>\<close>
  "channels color =
     (case rev color of
        b2 # b1 # g2 # g1 # r2 # r1 # _ \<Rightarrow> three_channels r1 r2 g1 g2 b1 b2
      | _ \<Rightarrow> None)"

definition classify_rgb :: "string \<Rightarrow> int \<Rightarrow> int \<Rightarrow> int \<Rightarrow> string option" where
  "classify_rgb color r g b =
     (if r > 240 \<and> g > 240 \<and> b > 240 then None
      else if r = 0 \<and> g = 0 \<and> b = 0 \<and> upper color = ''00000000'' then None
      else if r > 200 \<and> g > 200 \<and> b < 100 then Some ''yellow''
      else if g > 180 \<and> g > r \<and> g > b \<and> b < 120 then Some ''green''
      else if b > 150 \<and> b > r \<and> b > g then Some ''blue''
      else if r > 200 \<and> b > 150 \<and> g < 180 then Some ''pink''
      else if \<not> (r < 50 \<and> g < 50 \<and> b < 50) then
        (if r > 80 \<or> g > 80 \<or> b > 80 then Some ''other'' else None)
      else None)"

definition cell_bucket :: "cell \<Rightarrow> string option" where
  \<comment> \<open>the colour the loop returns at this cell; \<open>None\<close> when it goes on to the next cell\<close>
  "cell_bucket c =
     (case fill_rgb c of
        None \<Rightarrow> None
      | Some color \<Rightarrow>
          (case channels color of
             None \<Rightarrow> None
           | Some (r, g, b) \<Rightarrow> classify_rgb color r g b))"

fun is_row_highlighted :: "cell list \<Rightarrow> bool \<times> string" where
  "is_row_highlighted [] = (False, '''')"
| "is_row_highlighted (c # cs) =
     (case cell_bucket c of
        Some name \<Rightarrow> (True, name)
      | None \<Rightarrow> is_row_highlighted cs)"

section \<open>The mutation highlighter\<close>

text \<open>
  \<^verbatim>\<open>mutation_highlighter.py\<close>. The workbook is read without \<^verbatim>\<open>rich_text\<close>, so the values
  of its cells are \<^verbatim>\<open>None\<close>, strings and numbers. Offsets into a sequence are Python
  integers, \<open>(-1, -1)\<close> being the position of a window that was not found, and slices
  follow Python's rules for indices that are negative or past the end.
\<close>

definition lower_char :: "char \<Rightarrow> char" where
  "lower_char c =
     (case map_of (zip ''ABCDEFGHIJKLMNOPQRSTUVWXYZ'' ''abcdefghijklmnopqrstuvwxyz'') c of
        Some l \<Rightarrow> l
      | None \<Rightarrow> c)"

definition py_slice :: "'a list \<Rightarrow> int \<Rightarrow> int \<Rightarrow> 'a list" where
  \<comment> \<open>\<^verbatim>\<open>s[a:b]\<close>\<close>
  "py_slice s a b =
     (let n = int (length s);
          a' = (if a < 0 then max (a + n) 0 else min a n);
          b' = (if b < 0 then max (b + n) 0 else min b n)
      in take (nat (b' - a')) (drop (nat a') s))"

fun find_from :: "'a list \<Rightarrow> 'a list \<Rightarrow> nat \<Rightarrow> nat option" where
  "find_from pat [] i = (if pat = [] then Some i else None)"
| "find_from pat (c # cs) i =
     (if take (length pat) (c # cs) = pat then Some i else find_from pat cs (Suc i))"

definition py_find :: "string \<Rightarrow> string \<Rightarrow> int" where
  \<comment> \<open>\<^verbatim>\<open>s.find(pat)\<close>\<close>
  "py_find s pat = (case find_from pat s 0 of None \<Rightarrow> - 1 | Some i \<Rightarrow> int i)"

definition HIGHLIGHT_COLORS :: "(string \<times> string) list" where
  \<comment> \<open>colour name to the \<^verbatim>\<open>start_color\<close> of its \<^verbatim>\<open>PatternFill\<close>\<close>
  "HIGHLIGHT_COLORS = [(''yellow'', ''FFFF00''), (''green'', ''92D050''), (''orange'', ''FFC000'')]"

definition MUTATION_COLOR_MAP :: "(string \<times> string) list" where
  "MUTATION_COLOR_MAP =
     [(''C->T'', ''yellow''), (''A->G'', ''green''), (''G->A'', ''orange''), (''T->C'', ''orange'')]"

text \<open>
  \<^verbatim>\<open>_get_sequence_id\<close> and \<^verbatim>\<open>_is_sequence_header\<close>: the first cell, stripped, starts with
  digits followed by \<^verbatim>\<open>-ref\<close>; the sequence id is the run of digits.
\<close>

definition get_sequence_id :: "cell_value \<Rightarrow> string option" where
  "get_sequence_id cell_value =
     (if cell_value = VNone then None
      else let val = strip (py_str cell_value); ds = takeWhile is_digit val
           in if ds \<noteq> [] \<and> take 1 (dropWhile is_digit val) = ''-'' then Some ds else None)"

definition is_sequence_header :: "cell_value list \<Rightarrow> bool \<times> string option" where
  "is_sequence_header row_data =
     (case row_data of
        [] \<Rightarrow> (False, None)
      | first_cell # _ \<Rightarrow>
          (if first_cell = VNone then (False, None)
           else let val = strip (py_str first_cell)
                in if takeWhile is_digit val \<noteq> [] \<and> take 4 (dropWhile is_digit val) = ''-ref''
                   then (True, get_sequence_id (VStr val))
                   else (False, None)))"

definition find_target_sequence_position :: "string \<Rightarrow> string \<Rightarrow> int \<times> int" where
  "find_target_sequence_position target_sequence sequence =
     (if sequence = [] then (- 1, - 1)
      else let pos = py_find (upper sequence) target_sequence
           in if pos = - 1 then (- 1, - 1) else (pos, pos + int (length target_sequence)))"

fun match_mutation :: "string \<Rightarrow> (char \<times> char) option" where
  \<comment> \<open>\<^verbatim>\<open>re.match(r'([ATCG])->([ATCG])', s)\<close>: the two groups\<close>
  "match_mutation (f # d # g # t # rest) =
     (if is_base f \<and> d = CHR ''-'' \<and> g = CHR ''>'' \<and> is_base t then Some (f, t) else None)"
| "match_mutation _ = None"

definition check_mutation_in_position :: "string \<Rightarrow> string \<Rightarrow> int \<times> int \<Rightarrow> bool" where
  "check_mutation_in_position sequence mutation_type target_pos =
     (case target_pos of (start, end) \<Rightarrow>
        if sequence = [] \<or> mutation_type = [] then False
        else if start < 0 \<or> end > int (length sequence) then False
        else (case match_mutation (upper mutation_type) of
                None \<Rightarrow> False
              | Some (f, t) \<Rightarrow> lower_char t \<in> set (py_slice sequence start end)))"

definition red_font_parts :: "string \<Rightarrow> int \<times> int \<Rightarrow> (string \<times> string option) list option" where
  \<comment> \<open>the runs \<^verbatim>\<open>_apply_red_font_to_20bp\<close> builds; \<open>None\<close> when it returns early\<close>
  "red_font_parts sequence target_pos =
     (case target_pos of (start, end) \<Rightarrow>
        if sequence = [] then None
        else if start < 0 \<or> end > int (length sequence) then None
        else Some ((if start > 0 then [(py_slice sequence 0 start, Some ''000000'')] else [])
                   @ [(py_slice sequence start end, Some ''FF0000'')]
                   @ (if end < int (length sequence)
                      then [(py_slice sequence end (int (length sequence)), Some ''000000'')]
                      else [])))"

definition apply_red_font_to_20bp :: "cell list \<Rightarrow> string \<Rightarrow> int \<times> int \<Rightarrow> cell list" where
  \<comment> \<open>column 8 of the row is \<open>row ! 7\<close>; the caller passes the text of that cell as
      \<open>sequence\<close>, so the row has it whenever \<open>sequence\<close> is not empty\<close>
  "apply_red_font_to_20bp row sequence target_pos =
     (case red_font_parts sequence target_pos of
        None \<Rightarrow> row
      | Some parts \<Rightarrow> row[7 := (row ! 7)\<lparr>cvalue := VRich parts\<rparr>])"

definition get_highlight_color :: "string \<Rightarrow> string option" where
  "get_highlight_color mutation_type =
     (if mutation_type = [] then None
      else let normalized = filter (\<lambda>c. c \<noteq> CHR '' '') (upper mutation_type)
           in map_option snd (find (\<lambda>(mut_type, color). upper mut_type = normalized)
                                MUTATION_COLOR_MAP))"

definition is_sep :: "char \<Rightarrow> bool" where
  \<comment> \<open>the class \<open>[,;\s]\<close>\<close>
  "is_sep c = (c = CHR '','' \<or> c = CHR '';'' \<or> is_space c)"

fun re_split :: "bool \<Rightarrow> string \<Rightarrow> string list" where
  \<comment> \<open>\<^verbatim>\<open>re.split(r'[,;\s]+', s)\<close> is \<open>re_split False s\<close>; the flag says that the character
      before was a separator\<close>
  "re_split in_sep [] = [[]]"
| "re_split in_sep (c # cs) =
     (if is_sep c then (if in_sep then re_split True cs else [] # re_split True cs)
      else (case re_split False cs of
              p # ps \<Rightarrow> (c # p) # ps
            | [] \<Rightarrow> [[c]]))"

definition is_dash :: "char \<Rightarrow> bool" where
  \<comment> \<open>the class of the separators between the two bases; the source also lists the en
      dash, which is not an ASCII character\<close>
  "is_dash c = (c = CHR ''-'' \<or> c = CHR ''>'')"

fun match_dashed :: "string \<Rightarrow> (char \<times> char) option" where
  \<comment> \<open>\<^verbatim>\<open>re.match(r'([ATCG])[->]+([ATCG])', s)\<close>\<close>
  "match_dashed [] = None"
| "match_dashed (f # rest) =
     (if is_base f \<and> takeWhile is_dash rest \<noteq> [] then
        (case dropWhile is_dash rest of
           [] \<Rightarrow> None
         | t # _ \<Rightarrow> if is_base t then Some (f, t) else None)
      else None)"

fun parse_parts :: "string list \<Rightarrow> string list" where
  "parse_parts [] = []"
| "parse_parts (p # ps) =
     (let part = upper (strip p) in
      if part = [] \<or> part = ''-'' then parse_parts ps
      else (case match_dashed part of
              Some (f, t) \<Rightarrow> ([f] @ ''->'' @ [t]) # parse_parts ps
            | None \<Rightarrow> parse_parts ps))"

definition parse_mutations_from_column :: "string \<Rightarrow> string list" where
  "parse_mutations_from_column v =
     (if v = [] \<or> strip v = ''-'' then [] else parse_parts (re_split False v))"

text \<open>
  \<^verbatim>\<open>_get_mutation_intersection\<close> returns \<^verbatim>\<open>list(set(f) & set(g))\<close>. The order of that list
  is Python's iteration order of a set of strings, which the language leaves open; the
  model takes the function as a parameter \<open>isect\<close>, of which it is known only that it
  lists the common codes once each.
\<close>

definition is_intersection :: "(string list \<Rightarrow> string list \<Rightarrow> string list) \<Rightarrow> bool" where
  "is_intersection isect = (\<forall>f g. distinct (isect f g) \<and> set (isect f g) = set f \<inter> set g)"

definition list_intersection :: "string list \<Rightarrow> string list \<Rightarrow> string list" where
  \<comment> \<open>one such order: that of the first list\<close>
  "list_intersection f g = remdups (filter (\<lambda>m. m \<in> set g) f)"

datatype detail =
    NoWtSequence
  | PositionOutOfRange
  | CannotParse string
  | NoMutationInWindow
  | Verified char char
  | WrongSource string string nat char char
  | ObservedInstead string string

record found_mutation =
  position :: nat
  wt_base :: char
  mut_base :: char
  actual :: string

definition mutations_found :: "string \<Rightarrow> string \<Rightarrow> found_mutation list" where
  \<comment> \<open>the loop over \<^verbatim>\<open>enumerate(zip(wt_region, mut_region))\<close>\<close>
  "mutations_found wt_region mut_region =
     map (\<lambda>(i, wt_char, mut_char).
            \<lparr>position = i, wt_base = upper_char wt_char, mut_base = upper_char mut_char,
             actual = [upper_char wt_char] @ ''->'' @ [upper_char mut_char]\<rparr>)
       (filter (\<lambda>(i, wt_char, mut_char). islower_char mut_char)
          (zip [0 ..< length wt_region] (zip wt_region mut_region)))"

fun join :: "string \<Rightarrow> string list \<Rightarrow> string" where
  "join sep [] = []"
| "join sep [x] = x"
| "join sep (x # y # ys) = x @ sep @ join sep (y # ys)"

definition verify_mutation_with_wt ::
  "string \<Rightarrow> string \<Rightarrow> string \<Rightarrow> int \<times> int \<Rightarrow> string \<times> string \<times> detail" where
  \<comment> \<open>the first argument is \<^verbatim>\<open>self.current_wt_sequence\<close>\<close>
  "verify_mutation_with_wt current_wt_sequence mutated_sequence claimed_mutation target_pos =
     (case target_pos of (start, end) \<Rightarrow>
        if current_wt_sequence = [] \<or> mutated_sequence = [] then (''unknown'', '''', NoWtSequence)
        else if start < 0 \<or> end > int (length current_wt_sequence)
                \<or> end > int (length mutated_sequence)
        then (''unknown'', '''', PositionOutOfRange)
        else (case match_mutation (upper claimed_mutation) of
                None \<Rightarrow> (''unknown'', '''', CannotParse claimed_mutation)
              | Some (claimed_from, claimed_to) \<Rightarrow>
                  (let wt_region = py_slice current_wt_sequence start end;
                       mut_region = py_slice mutated_sequence start end;
                       actual_mutations_found = mutations_found wt_region mut_region
                   in if actual_mutations_found = [] then (''unknown'', '''', NoMutationInWindow)
                      else if list_ex (\<lambda>m. wt_base m = claimed_from \<and> mut_base m = claimed_to)
                                actual_mutations_found
                      then (''correct'', [claimed_from] @ ''->'' @ [claimed_to],
                            Verified claimed_from claimed_to)
                      else (let error_details =
                                  map (\<lambda>m. WrongSource claimed_mutation (actual m) (position m)
                                              (wt_base m) claimed_from)
                                    (filter (\<lambda>m. mut_base m = claimed_to) actual_mutations_found)
                            in if error_details \<noteq> []
                               then (''error'', actual (hd actual_mutations_found), hd error_details)
                               else (let all_actual = join '', '' (map actual actual_mutations_found)
                                     in (''error'', all_actual,
                                         ObservedInstead claimed_mutation all_actual))))))"

record highlight_result =
  row_index :: nat
  sequence_id :: string
  mutation_type :: string
  highlight_color :: string
  f_value :: string
  g_value :: string
  verification_status :: string
  actual_mutation :: string
  verification_detail :: detail


text \<open>
  The state of the loop of \<^verbatim>\<open>MutationHighlighter.process_file\<close>: its local variables, the
  attribute \<^verbatim>\<open>self.current_wt_sequence\<close>, and the lines it prints when it rejects a row
  (\<open>skipped\<close>: the row number and the detail of the failed verification).
\<close>

record hl_state =
  current_seq_id :: "string option"
  current_has_target :: bool
  current_target_pos :: "int \<times> int"
  current_highlighted_mutations :: "string list"
  current_wt_sequence :: string
  highlight_results :: "highlight_result list"
  skipped :: "(nat \<times> detail) list"

definition col_text :: "cell_value list \<Rightarrow> nat \<Rightarrow> string" where
  \<comment> \<open>\<^verbatim>\<open>str(row_data[i]).strip() if len(row_data) > i and row_data[i] else ""\<close>\<close>
  "col_text row_data i =
     (if length row_data > i \<and> truthy (row_data ! i) then strip (py_str (row_data ! i)) else '''')"

definition all_empty :: "cell_value list \<Rightarrow> bool" where
  \<comment> \<open>\<^verbatim>\<open>all(v is None or str(v).strip() == '' for v in row_data)\<close>\<close>
  "all_empty row_data = list_all (\<lambda>v. v = VNone \<or> strip (py_str v) = []) row_data"

fun pick_mutation ::
  "string list \<Rightarrow> string \<Rightarrow> int \<times> int \<Rightarrow> string list \<Rightarrow> (string \<times> string) option" where
  \<comment> \<open>the loop over \<^verbatim>\<open>common_mutations\<close>: the first code that is not yet used in the group,
      has a colour and passes \<^verbatim>\<open>_check_mutation_in_position\<close>\<close>
  "pick_mutation used h_value target_pos [] = None"
| "pick_mutation used h_value target_pos (mutation # rest) =
     (if mutation \<in> set used then pick_mutation used h_value target_pos rest
      else (case get_highlight_color mutation of
              None \<Rightarrow> pick_mutation used h_value target_pos rest
            | Some color \<Rightarrow>
                if color \<noteq> [] \<and> check_mutation_in_position h_value mutation target_pos
                then Some (mutation, color)
                else pick_mutation used h_value target_pos rest))"

definition apply_highlight ::
  "hl_state \<Rightarrow> nat \<Rightarrow> cell list \<Rightarrow> string \<Rightarrow> string \<Rightarrow> string \<Rightarrow> string \<Rightarrow> string \<Rightarrow>
   hl_state \<times> cell list" where
  \<comment> \<open>the end of the loop body, from the call of the verifier on\<close>
  "apply_highlight st row_idx row f_val g_val h_value matched_mutation color =
     (case verify_mutation_with_wt (current_wt_sequence st) h_value matched_mutation
             (current_target_pos st) of
        (verify_status, actual_mut, verify_detail) \<Rightarrow>
          if verify_status = ''error''
          then (st\<lparr>skipped := skipped st @ [(row_idx, verify_detail)]\<rparr>, row)
          else (case map_of HIGHLIGHT_COLORS color of
                  None \<Rightarrow> (st, row)
                | Some fill \<Rightarrow>
                    (st\<lparr>current_highlighted_mutations :=
                          List.insert matched_mutation (current_highlighted_mutations st),
                        highlight_results := highlight_results st @
                          [\<lparr>row_index = row_idx,
                            sequence_id = (case current_seq_id st of None \<Rightarrow> '''' | Some i \<Rightarrow> i),
                            mutation_type = matched_mutation,
                            highlight_color = color,
                            f_value = f_val,
                            g_value = g_val,
                            verification_status = verify_status,
                            actual_mutation = actual_mut,
                            verification_detail = verify_detail\<rparr>]\<rparr>,
                     apply_red_font_to_20bp (map (\<lambda>c. c\<lparr>fill_rgb := Some fill\<rparr>) row)
                       h_value (current_target_pos st))))"

definition process_row ::
  "(string list \<Rightarrow> string list \<Rightarrow> string list) \<Rightarrow> string \<Rightarrow> hl_state \<Rightarrow> nat \<Rightarrow> cell list \<Rightarrow>
   hl_state \<times> cell list" where
  "process_row isect target_sequence st row_idx row =
     (let row_data = map cvalue row in
      case is_sequence_header row_data of
        (True, seq_id) \<Rightarrow>
          (st\<lparr>current_seq_id := seq_id, current_has_target := False,
              current_target_pos := (- 1, - 1), current_highlighted_mutations := []\<rparr>, row)
      | (False, _) \<Rightarrow>
          if all_empty row_data then (st, row)
          else
            (let d_value = col_text row_data 3;
                 e_value = col_text row_data 4;
                 f_val = col_text row_data 5;
                 g_val = col_text row_data 6;
                 h_value = col_text row_data 7
             in if d_value = ''WT'' \<and> e_value = ''WT'' then
                  (let pos = find_target_sequence_position target_sequence h_value
                   in if fst pos \<ge> 0
                      then (st\<lparr>current_has_target := True, current_target_pos := pos,
                               current_wt_sequence := h_value\<rparr>, row)
                      else (st, row))
                else if \<not> current_has_target st then (st, row)
                else if f_val \<in> set [''-'', ''''] \<and> g_val \<in> set [''-'', ''''] then (st, row)
                else
                  (let f_mutations = parse_mutations_from_column f_val;
                       g_mutations = parse_mutations_from_column g_val
                   in if f_mutations = [] \<and> g_mutations = [] then (st, row)
                      else
                        (let common_mutations = isect f_mutations g_mutations
                         in if common_mutations = [] then (st, row)
                            else (case pick_mutation (current_highlighted_mutations st) h_value
                                         (current_target_pos st) common_mutations of
                                    None \<Rightarrow> (st, row)
                                  | Some (matched_mutation, color) \<Rightarrow>
                                      if matched_mutation = [] \<or> color = [] then (st, row)
                                      else apply_highlight st row_idx row f_val g_val h_value
                                             matched_mutation color)))))"

fun process_rows ::
  "(string list \<Rightarrow> string list \<Rightarrow> string list) \<Rightarrow> string \<Rightarrow> hl_state \<Rightarrow> nat \<Rightarrow> cell list list \<Rightarrow>
   hl_state \<times> cell list list" where
  \<comment> \<open>\<^verbatim>\<open>for row_idx, row in enumerate(ws.iter_rows(min_row=1), 1)\<close>\<close>
  "process_rows isect target_sequence st row_idx [] = (st, [])"
| "process_rows isect target_sequence st row_idx (row # rows) =
     (case process_row isect target_sequence st row_idx row of
        (st1, row1) \<Rightarrow>
          (case process_rows isect target_sequence st1 (Suc row_idx) rows of
             (st2, rows2) \<Rightarrow> (st2, row1 # rows2)))"

text \<open>
  The report. A \<^verbatim>\<open>dict\<close> of counts is an association list in insertion order; an entry of
  \<^verbatim>\<open>error_mutations\<close> is the tuple of its values \<^verbatim>\<open>row\<close>, \<^verbatim>\<open>sequence_id\<close>,
  \<^verbatim>\<open>claimed_mutation\<close>, \<^verbatim>\<open>actual_mutation\<close>, \<^verbatim>\<open>detail\<close>.
\<close>

definition bump :: "(string \<times> nat) list \<Rightarrow> string \<Rightarrow> (string \<times> nat) list" where
  \<comment> \<open>\<^verbatim>\<open>d[k] = d.get(k, 0) + 1\<close>\<close>
  "bump d k =
     (case map_of d k of
        None \<Rightarrow> d @ [(k, 1)]
      | Some n \<Rightarrow> map (\<lambda>(k', v). if k' = k then (k', v + 1) else (k', v)) d)"

record report =
  total_highlighted :: nat
  color_statistics :: "(string \<times> nat) list"
  mutation_statistics :: "(string \<times> nat) list"
  verification_statistics :: "(string \<times> nat) list"
  error_mutations :: "(nat \<times> string \<times> string \<times> string \<times> detail) list"
  highlighted_rows :: "highlight_result list"

definition count_result :: "report \<Rightarrow> highlight_result \<Rightarrow> report" where
  \<comment> \<open>the body of the loop over \<^verbatim>\<open>highlight_results\<close>\<close>
  "count_result rep result =
     rep\<lparr>color_statistics := bump (color_statistics rep) (highlight_color result),
         mutation_statistics := bump (mutation_statistics rep) (mutation_type result),
         verification_statistics :=
           (if map_of (verification_statistics rep) (verification_status result) \<noteq> None
            then bump (verification_statistics rep) (verification_status result)
            else verification_statistics rep),
         error_mutations :=
           (if verification_status result = ''error''
            then error_mutations rep @
                   [(row_index result, sequence_id result, mutation_type result,
                     actual_mutation result, verification_detail result)]
            else error_mutations rep)\<rparr>"

definition make_report :: "highlight_result list \<Rightarrow> report" where
  "make_report results =
     foldl count_result
       \<lparr>total_highlighted = length results,
        color_statistics = [],
        mutation_statistics = [],
        verification_statistics = [(''correct'', 0), (''error'', 0), (''unknown'', 0)],
        error_mutations = [],
        highlighted_rows = results\<rparr>
       results"

definition initial_state :: hl_state where
  "initial_state =
     \<lparr>current_seq_id = None, current_has_target = False, current_target_pos = (- 1, - 1),
      current_highlighted_mutations = [], current_wt_sequence = '''', highlight_results = [],
      skipped = []\<rparr>"

definition process_file ::
  "(string list \<Rightarrow> string list \<Rightarrow> string list) \<Rightarrow> string \<Rightarrow> cell list list \<Rightarrow>
   cell list list \<times> report \<times> (nat \<times> detail) list" where
  \<comment> \<open>the sheet that is saved, the report that is returned, and the lines printed;
      \<open>target_sequence\<close> is the attribute of the highlighter\<close>
  "process_file isect target_sequence rows =
     (case process_rows isect target_sequence initial_state 1 rows of
        (st, rows') \<Rightarrow> (rows', make_report (highlight_results st), skipped st))"

definition highlight_mutations ::
  "(string list \<Rightarrow> string list \<Rightarrow> string list) \<Rightarrow> cell list list \<Rightarrow> string \<Rightarrow>
   cell list list \<times> report \<times> (nat \<times> detail) list" where
  \<comment> \<open>\<^verbatim>\<open>MutationHighlighter(target_sequence).process_file(..)\<close>: the constructor upper-cases
      the target\<close>
  "highlight_mutations isect rows target_sequence = process_file isect (upper target_sequence) rows"


text \<open>
  Notions used to state the properties of the highlighter: a row with at most one code
  common to its two detail columns (for such a row the order of the intersection does not
  matter), a state all of whose results so far were verified as correct, and a state whose
  recorded window lies inside the recorded wild-type sequence.
\<close>

definition single_code :: "cell list \<Rightarrow> bool" where
  "single_code row =
     (length (list_intersection (parse_mutations_from_column (col_text (map cvalue row) 5))
                (parse_mutations_from_column (col_text (map cvalue row) 6))) \<le> 1)"

definition all_correct :: "hl_state \<Rightarrow> bool" where
  "all_correct st = list_all (\<lambda>r. verification_status r = ''correct'') (highlight_results st)"

definition anchored :: "hl_state \<Rightarrow> bool" where
  "anchored st =
     (if current_has_target st
      then 0 \<le> fst (current_target_pos st)
           \<and> fst (current_target_pos st) \<le> snd (current_target_pos st)
           \<and> snd (current_target_pos st) \<le> int (length (current_wt_sequence st))
           \<and> current_wt_sequence st \<noteq> []
      else True)"

text \<open>
  The sheets of the spec's two examples: a header row, a wild-type row with the sequence
  \<^verbatim>\<open>"AAAA" + window + "CCCC"\<close>, and a candidate row that claims \<^verbatim>\<open>C->T\<close> in both detail
  columns. A third candidate has its lowercase \<^verbatim>\<open>t\<close> where the wild type has \<^verbatim>\<open>G\<close>.
\<close>

definition plain :: "cell_value \<Rightarrow> cell" where
  "plain v = \<lparr>cvalue = v, fill_rgb = None, font_rgb = None, style = 0\<rparr>"

definition filled :: "string \<Rightarrow> cell_value \<Rightarrow> cell" where
  "filled rgb v = \<lparr>cvalue = v, fill_rgb = Some rgb, font_rgb = None, style = 0\<rparr>"

definition target_window :: string where
  "target_window = ''TGGAGACACTAGAGGGATGG''"

definition wt_sequence :: string where
  "wt_sequence = ''AAAA'' @ ''TGGAGACACTAGAGGGATGG'' @ ''CCCC''"

definition candidate_t :: string where
  \<comment> \<open>lowercase \<open>t\<close> at window index 6, absolute offset 10\<close>
  "candidate_t = ''AAAA'' @ ''TGGAGAtACTAGAGGGATGG'' @ ''CCCC''"

definition candidate_a :: string where
  \<comment> \<open>lowercase \<open>a\<close> at window index 6\<close>
  "candidate_a = ''AAAA'' @ ''TGGAGAaACTAGAGGGATGG'' @ ''CCCC''"

definition candidate_g_to_t :: string where
  \<comment> \<open>lowercase \<open>t\<close> at window index 11, where the wild type has \<open>G\<close>\<close>
  "candidate_g_to_t = ''AAAA'' @ ''TGGAGACACTAtAGGGATGG'' @ ''CCCC''"

definition header_row :: "cell list" where
  "header_row =
     map plain [VStr ''045-refGmACC1HiTom'', VNone, VNone, VNone, VNone, VNone, VNone, VNone, VNone]"

definition wt_row :: "cell list" where
  "wt_row =
     map plain [VNone, VOther ''1000'' True, VStr ''90%'', VStr ''WT'', VStr ''WT'', VStr ''-'',
                VStr ''-'', VStr wt_sequence, VStr wt_sequence]"

definition candidate_row :: "string \<Rightarrow> cell list" where
  "candidate_row s =
     map plain [VNone, VOther ''10'' True, VStr ''1%'', VStr ''SNP'', VStr ''SNP'', VStr ''C->T'',
                VStr ''C->T'', VStr s, VStr wt_sequence]"

definition example_sheet :: "string \<Rightarrow> cell list list" where
  "example_sheet s = [header_row, wt_row, candidate_row s]"

section \<open>The processor: ingestion and simplification\<close>

text \<open>
  \<^verbatim>\<open>gene_editing_processor.py\<close>. The workbook is read with \<^verbatim>\<open>rich_text=True\<close>, so a cell
  value may be a \<^verbatim>\<open>CellRichText\<close>. The record of an entry keeps the fields of
  \<^verbatim>\<open>SequenceEntry\<close> that the simplifier and the properties below read; \<^verbatim>\<open>depth\<close>,
  \<^verbatim>\<open>percentage_raw\<close> and \<^verbatim>\<open>has_valid_data\<close> hold formatted numbers that no function
  modelled here reads, and are left out, as is the re-formatting of percentage cells in
  \<^verbatim>\<open>parse_source_file\<close>, which changes the text of a number cell only. Field names that
  the record of a highlight result has already are suffixed (\<open>_e\<close> for an entry, \<open>_s\<close> for a
  simplified row).
\<close>

record sequence_entry =
  sequence_id_e :: string
  reference_name :: string
  row_number :: nat
  data_type :: string
  snp_type :: string
  full_sequence :: string
  left_sequence :: string
  right_sequence :: string
  is_wt :: bool
  is_highlighted :: bool
  highlight_color_e :: string
  original_row :: "cell_value list"
  original_row_cells :: "cell list"
  original_sequence_value :: cell_value

record sequence_group =
  seq_id :: string
  ref_name :: string
  all_entries :: "sequence_entry list"

record simplified_row =
  sequence_id_s :: string
  reference_name_s :: string
  row_type :: string
  red_20_bases :: string
  original_row_values :: "cell_value list"
  is_highlighted_s :: bool
  highlight_color_s :: string
  original_row_num :: nat
  is_simplified :: bool

definition match_sequence_core :: "string \<Rightarrow> (string \<times> string) option" where
  "match_sequence_core s =
     (let ds = takeWhile is_digit s; rest = dropWhile is_digit s
      in if ds \<noteq> [] \<and> take 4 rest = ''-ref'' \<and> drop 4 rest \<noteq> []
            \<and> list_all is_word_char (drop 4 rest)
         then Some (ds, drop 4 rest)
         else None)"

definition match_sequence :: "string \<Rightarrow> (string \<times> string) option" where
  \<comment> \<open>\<^verbatim>\<open>re.compile(r'^(\d+)-ref(\w+)$').match(s)\<close>: the two groups. \<open>$\<close> also matches
      before a final line feed.\<close>
  "match_sequence s =
     (case match_sequence_core s of
        Some groups \<Rightarrow> Some groups
      | None \<Rightarrow>
          (if s \<noteq> [] \<and> last s = CHR 0x0A then match_sequence_core (butlast s) else None))"

fun search_mutation :: "string \<Rightarrow> bool" where
  \<comment> \<open>\<^verbatim>\<open>bool(self.mutation_pattern.search(s))\<close>, the pattern being
      \<^verbatim>\<open>([ATCG])->([ATCG])\<close> with \<^verbatim>\<open>re.IGNORECASE\<close>\<close>
  "search_mutation [] = False"
| "search_mutation (c # cs) = (match_mutation (upper (c # cs)) \<noteq> None \<or> search_mutation cs)"

definition col_str :: "cell_value list \<Rightarrow> nat \<Rightarrow> string option" where
  \<comment> \<open>\<^verbatim>\<open>str(row_data[i]).strip()\<close> when \<^verbatim>\<open>len(row_data) > i and row_data[i] is not None\<close>\<close>
  "col_str row_data i =
     (if length row_data > i \<and> row_data ! i \<noteq> VNone then Some (strip (py_str (row_data ! i)))
      else None)"

definition sequence_field :: "cell_value list \<Rightarrow> nat \<Rightarrow> string" where
  \<comment> \<open>a sequence column: its stripped text when it has more than 20 base letters\<close>
  "sequence_field row_data i =
     (case col_str row_data i of
        None \<Rightarrow> ''''
      | Some s \<Rightarrow>
          if length (filter (\<lambda>c. is_base (upper_char c)) s) > 20 then s else '''')"

definition has_lower_base :: "string \<Rightarrow> bool" where
  \<comment> \<open>\<^verbatim>\<open>any(c.islower() and c.upper() in 'ATCG' for c in s)\<close>\<close>
  "has_lower_base s = list_ex (\<lambda>c. islower_char c \<and> is_base (upper_char c)) s"

definition value_at :: "cell_value list \<Rightarrow> nat \<Rightarrow> cell_value" where
  \<comment> \<open>\<^verbatim>\<open>row_data[i] if len(row_data) > i else None\<close>\<close>
  "value_at row_data i = (if length row_data > i then row_data ! i else VNone)"

definition parse_data_row ::
  "cell_value list \<Rightarrow> nat \<Rightarrow> string \<Rightarrow> string \<Rightarrow> bool \<Rightarrow> string \<Rightarrow> cell list \<Rightarrow> sequence_entry" where
  \<comment> \<open>\<^verbatim>\<open>_parse_data_row\<close>. Its \<^verbatim>\<open>except\<close> branch returns \<^verbatim>\<open>None\<close>, and the row is then
      dropped; it is taken when the depth or the percentage cell overflows
      (\<^verbatim>\<open>int\<close> of an infinite float, \<^verbatim>\<open>float\<close> of an integer beyond the float range). The
      model leaves these two fields out, and that branch with them: it covers the rows
      whose depth and percentage cells convert.\<close>
  "parse_data_row row_data row_idx group_id group_ref highlighted color row_cells =
     (let left_type = (case col_str row_data 3 of None \<Rightarrow> '''' | Some s \<Rightarrow> upper s);
          right_type = (case col_str row_data 4 of None \<Rightarrow> '''' | Some s \<Rightarrow> upper s);
          left_var = (case col_str row_data 5 of None \<Rightarrow> '''' | Some s \<Rightarrow> s);
          right_var = (case col_str row_data 6 of None \<Rightarrow> '''' | Some s \<Rightarrow> s);
          left_has_mutation = search_mutation left_var;
          right_has_mutation = search_mutation right_var;
          snp = (if left_has_mutation \<and> right_has_mutation then left_var
                 else if left_has_mutation then left_var
                 else if right_has_mutation then right_var
                 else '''');
          dtype = (if left_type = ''WT'' \<and> right_type = ''WT'' then ''WT''
                   else if ''SNP'' \<in> set [left_type, right_type] then ''SNP''
                   else if left_type \<noteq> ''WT'' then left_type else right_type);
          left_seq = sequence_field row_data 7;
          right_seq = sequence_field row_data 8;
          has_lower_left = has_lower_base left_seq;
          has_lower_right = has_lower_base right_seq;
          chosen =
            (if highlighted \<and> left_seq \<noteq> [] then (left_seq, value_at row_data 7)
             else if has_lower_left then (left_seq, value_at row_data 7)
             else if has_lower_right then (right_seq, value_at row_data 8)
             else (if left_seq \<noteq> [] then left_seq else right_seq,
                   if left_seq \<noteq> [] \<and> length row_data > 7 then row_data ! 7
                   else value_at row_data 8))
      in \<lparr>sequence_id_e = group_id,
          reference_name = group_ref,
          row_number = row_idx,
          data_type = dtype,
          snp_type = snp,
          full_sequence = fst chosen,
          left_sequence = left_seq,
          right_sequence = right_seq,
          is_wt = (left_type = ''WT'' \<and> right_type = ''WT''),
          is_highlighted = highlighted,
          highlight_color_e = color,
          original_row = row_data,
          original_row_cells = row_cells,
          original_sequence_value = snd chosen\<rparr>)"

definition first_cell_text :: "cell_value list \<Rightarrow> string" where
  \<comment> \<open>\<^verbatim>\<open>str(row_data[0]).strip() if row_data[0] else ""\<close>, for a row that is not empty\<close>
  "first_cell_text row_data =
     (case row_data of
        [] \<Rightarrow> ''''
      | v # _ \<Rightarrow> if truthy v then strip (py_str v) else '''')"

definition parse_row :: "sequence_group list \<Rightarrow> nat \<Rightarrow> cell list \<Rightarrow> sequence_group list" where
  \<comment> \<open>the loop body of \<^verbatim>\<open>parse_source_file\<close>; \<^verbatim>\<open>current_group\<close> is the last group of
      the list\<close>
  "parse_row sequence_groups row_idx row =
     (let row_data = map cvalue row in
      if all_empty row_data then sequence_groups
      else
        (let first_cell = first_cell_text row_data in
         case match_sequence first_cell of
           Some (digits, name) \<Rightarrow>
             sequence_groups @ [\<lparr>seq_id = first_cell, ref_name = name, all_entries = []\<rparr>]
         | None \<Rightarrow>
             (if sequence_groups = [] then sequence_groups
              else
                (let current_group = last sequence_groups;
                     hl = is_row_highlighted row;
                     entry = parse_data_row row_data row_idx (seq_id current_group)
                               (ref_name current_group) (fst hl) (snd hl) row
                 in butlast sequence_groups @
                      [current_group\<lparr>all_entries := all_entries current_group @ [entry]\<rparr>]))))"

fun parse_rows :: "sequence_group list \<Rightarrow> nat \<Rightarrow> cell list list \<Rightarrow> sequence_group list" where
  "parse_rows sequence_groups row_idx [] = sequence_groups"
| "parse_rows sequence_groups row_idx (row # rows) =
     parse_rows (parse_row sequence_groups row_idx row) (Suc row_idx) rows"

definition parse_source_file :: "cell list list \<Rightarrow> sequence_group list" where
  "parse_source_file rows = parse_rows [] 1 rows"


definition is_red_color :: "string \<Rightarrow> bool" where
  \<comment> \<open>\<^verbatim>\<open>_is_red_color\<close>: \<^verbatim>\<open>AARRGGBB\<close> or \<^verbatim>\<open>RRGGBB\<close>, red when \<^verbatim>\<open>r > 180 and g < 100 and b < 100\<close>;
      any other length and any \<^verbatim>\<open>ValueError\<close> give \<^verbatim>\<open>False\<close>\<close>
  "is_red_color rgb_str =
     (if rgb_str = [] then False
      else
        (let rgb = upper rgb_str;
             parsed =
               (if length rgb = 8
                then three_channels (rgb ! 2) (rgb ! 3) (rgb ! 4) (rgb ! 5) (rgb ! 6) (rgb ! 7)
                else if length rgb = 6
                then three_channels (rgb ! 0) (rgb ! 1) (rgb ! 2) (rgb ! 3) (rgb ! 4) (rgb ! 5)
                else None)
         in case parsed of
              None \<Rightarrow> False
            | Some (r, g, b) \<Rightarrow> r > 180 \<and> g < 100 \<and> b < 100))"

fun red_parts ::
  "(string \<times> string option) list \<Rightarrow> int \<Rightarrow> int \<Rightarrow> string list \<Rightarrow> int \<times> string list" where
  \<comment> \<open>the loop over the runs of a rich text, with \<^verbatim>\<open>current_pos\<close>, \<^verbatim>\<open>red_start\<close> and
      \<^verbatim>\<open>red_text_parts\<close>\<close>
  "red_parts [] current_pos red_start red_text_parts = (red_start, red_text_parts)"
| "red_parts ((part_text, color) # rest) current_pos red_start red_text_parts =
     (let is_red = (case color of
                      None \<Rightarrow> False
                    | Some rgb \<Rightarrow> rgb \<noteq> [] \<and> is_red_color rgb)
      in if is_red \<and> part_text \<noteq> []
         then red_parts rest (current_pos + int (length part_text))
                (if red_start = - 1 then current_pos else red_start)
                (red_text_parts @ [part_text])
         else red_parts rest (current_pos + int (length part_text)) red_start red_text_parts)"

definition extract_red_from_cell_with_position :: "cell \<Rightarrow> string \<times> int" where
  "extract_red_from_cell_with_position c =
     (case cvalue c of
        VRich parts \<Rightarrow>
          (case red_parts parts 0 (- 1) [] of
             (red_start, red_text_parts) \<Rightarrow>
               if red_text_parts \<noteq> [] then (concat red_text_parts, red_start) else ('''', - 1))
      | v \<Rightarrow>
          (case font_rgb c of
             None \<Rightarrow> ('''', - 1)
           | Some rgb \<Rightarrow>
               if rgb \<noteq> [] \<and> is_red_color rgb
               then (if truthy v then py_str v else '''', 0)
               else ('''', - 1)))"

fun first_lower_base :: "string \<Rightarrow> nat \<Rightarrow> nat option" where
  \<comment> \<open>the first of \<^verbatim>\<open>lowercase_positions\<close>, counted from the second argument\<close>
  "first_lower_base [] i = None"
| "first_lower_base (c # cs) i =
     (if islower_char c \<and> is_base (upper_char c) then Some i else first_lower_base cs (Suc i))"

definition lowercase_window :: "string \<Rightarrow> string \<times> int \<times> int" where
  \<comment> \<open>the second method of \<^verbatim>\<open>_extract_red_bases_from_sequence\<close>\<close>
  "lowercase_window s =
     (if s = [] then ('''', - 1, - 1)
      else (case first_lower_base s 0 of
              None \<Rightarrow> ('''', - 1, - 1)
            | Some mutation_pos \<Rightarrow>
                (let start = max 0 (int mutation_pos - 10);
                     end = start + 20
                 in if end > int (length s)
                    then (let end' = int (length s); start' = max 0 (end' - 20)
                          in (py_slice s start' end', start', end'))
                    else (py_slice s start end, start, end))))"

definition red_of_column :: "cell list \<Rightarrow> nat \<Rightarrow> (string \<times> int \<times> int) option" where
  \<comment> \<open>the red text of the cell in column \<open>i\<close>, when the row has the column, the cell has
      a value and the text is not empty\<close>
  "red_of_column row i =
     (if row \<noteq> [] \<and> length row > i \<and> truthy (cvalue (row ! i)) then
        (case extract_red_from_cell_with_position (row ! i) of
           (red_text, red_start) \<Rightarrow>
             if red_text \<noteq> [] then Some (red_text, red_start, red_start + int (length red_text))
             else None)
      else None)"

definition extract_red_bases_from_sequence :: "string \<Rightarrow> cell list \<Rightarrow> string \<times> int \<times> int" where
  "extract_red_bases_from_sequence s row =
     (case red_of_column row 7 of
        Some found \<Rightarrow> found
      | None \<Rightarrow>
          (case red_of_column row 8 of
             Some found \<Rightarrow> found
           | None \<Rightarrow> lowercase_window s))"

definition simplify_group :: "simplified_row list \<Rightarrow> sequence_group \<Rightarrow> simplified_row list" where
  \<comment> \<open>the body of the loop over the groups in \<^verbatim>\<open>simplify_data\<close>; each inner loop
      appends one row per entry\<close>
  "simplify_group results g =
     (let highlighted_entries = filter is_highlighted (all_entries g);
          has_highlights = (length highlighted_entries > 0);
          wt_entries = filter is_wt (all_entries g)
      in if has_highlights then
           foldl (\<lambda>res hl_entry.
                    let red_bases =
                          (if original_row_cells hl_entry \<noteq> []
                           then fst (extract_red_bases_from_sequence (full_sequence hl_entry)
                                       (original_row_cells hl_entry))
                           else '''')
                    in res @ [\<lparr>sequence_id_s = seq_id g,
                                reference_name_s = ref_name g,
                                row_type = ''SNP'',
                                red_20_bases = (if red_bases \<noteq> [] then red_bases else ''-''),
                                original_row_values = original_row hl_entry,
                                is_highlighted_s = True,
                                highlight_color_s = highlight_color_e hl_entry,
                                original_row_num = row_number hl_entry,
                                is_simplified = False\<rparr>])
             (foldl (\<lambda>res wt_entry.
                       res @ [\<lparr>sequence_id_s = seq_id g,
                                reference_name_s = ref_name g,
                                row_type = ''WT'',
                                red_20_bases = ''-'',
                                original_row_values = original_row wt_entry,
                                is_highlighted_s = False,
                                highlight_color_s = '''',
                                original_row_num = row_number wt_entry,
                                is_simplified = False\<rparr>])
                results wt_entries)
             highlighted_entries
         else
           foldl (\<lambda>res wt_entry.
                    res @ [\<lparr>sequence_id_s = seq_id g,
                             reference_name_s = ref_name g,
                             row_type = ''WT'',
                             red_20_bases = ''-'',
                             original_row_values = original_row wt_entry,
                             is_highlighted_s = False,
                             highlight_color_s = '''',
                             original_row_num = row_number wt_entry,
                             is_simplified = True\<rparr>])
             results wt_entries)"

definition simplify_data :: "sequence_group list \<Rightarrow> simplified_row list" where
  "simplify_data sequence_groups = foldl simplify_group [] sequence_groups"

definition written_row :: "simplified_row \<Rightarrow> cell_value list" where
  \<comment> \<open>the values \<^verbatim>\<open>generate_simplified_excel\<close> writes for one row: four columns of its
      own, then the original values from the second on\<close>
  "written_row r =
     [VStr (sequence_id_s r), VStr (red_20_bases r), VStr (row_type r),
      VStr (if highlight_color_s r \<noteq> [] then highlight_color_s r else ''-'')]
     @ drop 1 (original_row_values r)"

definition simplify_sheet :: "cell list list \<Rightarrow> simplified_row list" where
  \<comment> \<open>\<^verbatim>\<open>process_file\<close> of the processor, up to the rows it hands to the writer\<close>
  "simplify_sheet rows = simplify_data (parse_source_file rows)"


text \<open>
  The condition under which the loop of \<^verbatim>\<open>parse_source_file\<close> opens a group at a row, and
  sheets used as examples below: a group without highlighted rows whose wild-type row has
  two columns after the sequence columns; a group with a wild-type row, a row that is
  wild-type and has a yellow fill, a row with a green fill and a red run of three letters
  in its sequence cell, and a row of neither kind; and a sheet in which the identifier of
  the first group comes back after another group.
\<close>

definition opens_group :: "cell list \<Rightarrow> bool" where
  "opens_group row =
     (\<not> all_empty (map cvalue row) \<and> match_sequence (first_cell_text (map cvalue row)) \<noteq> None)"

definition wide_wt_row :: "cell list" where
  "wide_wt_row =
     map plain [VNone, VOther ''1000'' True, VStr ''90%'', VStr ''WT'', VStr ''WT'', VStr ''-'',
                VStr ''-'', VStr wt_sequence, VStr wt_sequence, VStr ''note'', VOther ''7'' True]"

definition plain_group_sheet :: "cell list list" where
  "plain_group_sheet = [header_row, wide_wt_row, candidate_row candidate_t]"

definition yellow_wt_row :: "cell list" where
  "yellow_wt_row =
     map (filled ''FFFFFF00'')
       [VNone, VOther ''20'' True, VStr ''2%'', VStr ''WT'', VStr ''WT'', VStr ''-'', VStr ''-'',
        VStr wt_sequence, VStr wt_sequence]"

definition green_snp_row :: "cell list" where
  "green_snp_row =
     map (filled ''FF92D050'')
       [VNone, VOther ''10'' True, VStr ''1%'', VStr ''SNP'', VStr ''SNP'', VStr ''C->T'',
        VStr ''C->T'',
        VRich [(''AAAATGGAGA'', None), (''tAC'', Some ''FFFF0000''), (''TAGAGGGATGGCCCC'', None)],
        VStr wt_sequence]"

definition highlighted_group_sheet :: "cell list list" where
  "highlighted_group_sheet =
     [header_row, wt_row, yellow_wt_row, green_snp_row, candidate_row candidate_a]"

definition repeated_id_sheet :: "cell list list" where
  "repeated_id_sheet =
     [header_row, wt_row,
      map plain [VStr ''046-refGmACC2HiTom''], wt_row,
      header_row, wt_row]"

definition yellow_snp_row :: "cell list" where
  \<comment> \<open>a highlighted row without red text, its lowercase base at offset 10\<close>
  "yellow_snp_row =
     map (filled ''FFFFFF00'')
       [VNone, VOther ''10'' True, VStr ''1%'', VStr ''SNP'', VStr ''SNP'', VStr ''C->T'',
        VStr ''C->T'', VStr candidate_t, VStr wt_sequence]"


section \<open>The renumberer\<close>

text \<open>
  \<^verbatim>\<open>sort_gene_editing_file\<close>. It loads the workbook with
  \<^verbatim>\<open>load_workbook(input_path, data_only=False)\<close>, without \<^verbatim>\<open>rich_text=True\<close>: the value of
  a rich-text cell then arrives as one plain string, the texts of its runs put together,
  and the colours of the runs are gone before the function reads anything. Its first loop
  reads \<^verbatim>\<open>row[0]\<close> of every row of the loaded sheet, which raises \<^verbatim>\<open>IndexError\<close> on a row
  without cells; the second loop gives every header row the number of its group; the third
  copies the loaded sheet, cell by cell with its style, and puts the new identifier into
  the first cell of the header rows.
\<close>

datatype py_error = IndexError

definition load_value :: "cell_value \<Rightarrow> cell_value" where
  \<comment> \<open>the value of a cell of a workbook that is loaded without \<^verbatim>\<open>rich_text\<close>\<close>
  "load_value v = (case v of VRich parts \<Rightarrow> VStr (concat (map fst parts)) | _ \<Rightarrow> v)"

definition load_cell :: "cell \<Rightarrow> cell" where
  "load_cell c = c\<lparr>cvalue := load_value (cvalue c)\<rparr>"

definition load_workbook_plain :: "cell list list \<Rightarrow> cell list list" where
  \<comment> \<open>the rows of \<^verbatim>\<open>ws_src\<close>, from the sheet as the file has it\<close>
  "load_workbook_plain rows = map (map load_cell) rows"

fun str_nat :: "nat \<Rightarrow> string" where
  \<comment> \<open>the decimal digits of a number\<close>
  "str_nat n =
     (if n < 10 then [''0123456789'' ! n]
      else str_nat (n div 10) @ [''0123456789'' ! (n mod 10)])"

definition new_sequence_id :: "nat \<Rightarrow> string \<Rightarrow> string" where
  \<comment> \<open>\<^verbatim>\<open>f"{new_seq_counter:03d}-ref{ref_name}"\<close>\<close>
  "new_sequence_id n name =
     replicate (3 - length (str_nat n)) (CHR ''0'') @ str_nat n @ ''-ref'' @ name"

definition header_match :: "cell \<Rightarrow> (string \<times> string) option" where
  "header_match c =
     match_sequence (if truthy (cvalue c) then strip (py_str (cvalue c)) else '''')"

fun sequence_id_rows :: "nat \<Rightarrow> cell list list \<Rightarrow> py_error + (nat \<times> string \<times> string) list" where
  \<comment> \<open>the triples \<^verbatim>\<open>(row_idx, orig_num, ref_name)\<close> of the header rows\<close>
  "sequence_id_rows row_idx [] = Inr []"
| "sequence_id_rows row_idx ([] # rows) = Inl IndexError"
| "sequence_id_rows row_idx ((c # cs) # rows) =
     (case sequence_id_rows (Suc row_idx) rows of
        Inl e \<Rightarrow> Inl e
      | Inr rest \<Rightarrow>
          (case header_match c of
             Some (orig_num, name) \<Rightarrow> Inr ((row_idx, orig_num, name) # rest)
           | None \<Rightarrow> Inr rest))"

fun number_groups ::
  "(nat \<times> string \<times> string) list \<Rightarrow> nat \<Rightarrow> string option \<Rightarrow> (nat \<times> nat \<times> string) list \<times> nat" where
  \<comment> \<open>the loop with \<^verbatim>\<open>new_seq_counter\<close> and \<^verbatim>\<open>prev_orig_num\<close>: for every header row its
      row, the counter it gets and its name; and the counter at the end\<close>
  "number_groups [] new_seq_counter prev_orig_num = ([], new_seq_counter)"
| "number_groups ((row_idx, orig_num, name) # rest) new_seq_counter prev_orig_num =
     (if Some orig_num \<noteq> prev_orig_num
      then (case number_groups rest (new_seq_counter + 1) (Some orig_num) of
              (numbered, final) \<Rightarrow> ((row_idx, new_seq_counter + 1, name) # numbered, final))
      else (case number_groups rest new_seq_counter prev_orig_num of
              (numbered, final) \<Rightarrow> ((row_idx, new_seq_counter, name) # numbered, final)))"

definition row_to_new_seq :: "(nat \<times> nat \<times> string) list \<Rightarrow> (nat \<times> string) list" where
  \<comment> \<open>the dictionary from the row of a header to its new identifier\<close>
  "row_to_new_seq numbered = map (\<lambda>(row_idx, n, name). (row_idx, new_sequence_id n name)) numbered"

definition copy_row :: "(nat \<times> string) list \<Rightarrow> nat \<Rightarrow> cell list \<Rightarrow> cell list" where
  \<comment> \<open>the copy of one row of the loaded sheet \<^verbatim>\<open>ws_src\<close>\<close>
  "copy_row new_ids src_row_idx src_row =
     (case src_row of
        [] \<Rightarrow> []
      | c # cs \<Rightarrow>
          (case map_of new_ids src_row_idx of
             Some new_id \<Rightarrow> c\<lparr>cvalue := VStr new_id\<rparr>
           | None \<Rightarrow> c) # cs)"

fun copy_rows :: "(nat \<times> string) list \<Rightarrow> nat \<Rightarrow> cell list list \<Rightarrow> cell list list" where
  "copy_rows new_ids src_row_idx [] = []"
| "copy_rows new_ids src_row_idx (src_row # rows) =
     copy_row new_ids src_row_idx src_row # copy_rows new_ids (Suc src_row_idx) rows"

definition sort_gene_editing_file :: "cell list list \<Rightarrow> py_error + (cell list list \<times> nat \<times> nat)" where
  \<comment> \<open>from the sheet as the file has it: the sheet that is saved, \<^verbatim>\<open>total_groups\<close> and
      \<^verbatim>\<open>total_rows\<close>\<close>
  "sort_gene_editing_file rows =
     (let ws_src = load_workbook_plain rows in
      case sequence_id_rows 1 ws_src of
        Inl e \<Rightarrow> Inl e
      | Inr headers \<Rightarrow>
          (case number_groups headers 0 None of
             (numbered, total_groups) \<Rightarrow>
               Inr (copy_rows (row_to_new_seq numbered) 1 ws_src, total_groups, length headers)))"

definition renumber_sheet :: "cell list list" where
  \<comment> \<open>the example of the source: the numbers 007, 007, 008, 009, 007\<close>
  "renumber_sheet =
     [map plain [VStr ''007-refA''], wt_row, map plain [VStr ''007-refA''],
      map plain [VStr ''008-refB''], map plain [VStr ''009-refC''], wt_row,
      map (filled ''FFFFFF00'') [VStr ''007-refA'', VStr ''x'']]"

definition same_number_sheet :: "cell list list" where
  \<comment> \<open>two header rows in a row with the same digits and different names\<close>
  "same_number_sheet = [map plain [VStr ''007-refA''], wt_row, map plain [VStr ''007-refB'']]"

definition rich_renumber_sheet :: "cell list list" where
  \<comment> \<open>a header row and a row whose sequence cell is rich text with a red run\<close>
  "rich_renumber_sheet = [map plain [VStr ''007-refA''], green_snp_row]"

section \<open>Properties of the fill-colour classifier\<close>

lemma is_row_highlighted_iff:
  "fst (is_row_highlighted row) = list_ex (\<lambda>c. cell_bucket c \<noteq> None) row"
  by (induction row) (auto split: option.splits)

lemma is_row_highlighted_first:
  "is_row_highlighted row =
     (case find (\<lambda>c. cell_bucket c \<noteq> None) row of
        None \<Rightarrow> (False, '''')
      | Some c \<Rightarrow> (True, the (cell_bucket c)))"
  by (induction row) (auto split: option.splits)

lemma classify_rgb_chain:
  "classify_rgb color r g b =
     (if r > 240 \<and> g > 240 \<and> b > 240 then None
      else if r = 0 \<and> g = 0 \<and> b = 0 \<and> upper color = ''00000000'' then None
      else if r > 200 \<and> g > 200 \<and> b < 100 then Some ''yellow''
      else if g > 180 \<and> g > r \<and> g > b \<and> b < 120 then Some ''green''
      else if b > 150 \<and> b > r \<and> b > g then Some ''blue''
      else if r > 200 \<and> b > 150 \<and> g < 180 then Some ''pink''
      else if r > 80 \<or> g > 80 \<or> b > 80 then Some ''other''
      else None)"
  unfolding classify_rgb_def by (simp; linarith)

text \<open>
  C9, as the code has it. For a fill whose last six characters parse to the channels
  \<open>(r, g, b)\<close>, the rules apply in order and the first that matches decides: near-white and
  the transparent \<^verbatim>\<open>00000000\<close> give no highlight; then yellow, green, blue and pink by
  their thresholds; a remaining fill is \<^verbatim>\<open>other\<close> when one of its channels is above 80,
  and gives no highlight when all three are at most 80. A row is highlighted exactly when
  one of its cells gets a bucket, and its colour is the bucket of the first such cell.
\<close>

theorem fill_rules_first_match:
  assumes "fill_rgb c = Some color" and "channels color = Some (r, g, b)"
  defines "white \<equiv> r > 240 \<and> g > 240 \<and> b > 240"
      and "clear \<equiv> r = 0 \<and> g = 0 \<and> b = 0 \<and> upper color = ''00000000''"
      and "yellow \<equiv> r > 200 \<and> g > 200 \<and> b < 100"
      and "green \<equiv> g > 180 \<and> g > r \<and> g > b \<and> b < 120"
      and "blue \<equiv> b > 150 \<and> b > r \<and> b > g"
      and "pink \<equiv> r > 200 \<and> b > 150 \<and> g < 180"
  shows "(white \<or> clear \<longrightarrow> cell_bucket c = None)
    \<and> (\<not> white \<and> \<not> clear \<and> yellow \<longrightarrow> cell_bucket c = Some ''yellow'')
    \<and> (\<not> white \<and> \<not> clear \<and> \<not> yellow \<and> green \<longrightarrow> cell_bucket c = Some ''green'')
    \<and> (\<not> white \<and> \<not> clear \<and> \<not> yellow \<and> \<not> green \<and> blue \<longrightarrow>
           cell_bucket c = Some ''blue'')
    \<and> (\<not> white \<and> \<not> clear \<and> \<not> yellow \<and> \<not> green \<and> \<not> blue \<and> pink \<longrightarrow>
           cell_bucket c = Some ''pink'')
    \<and> (\<not> white \<and> \<not> clear \<and> \<not> yellow \<and> \<not> green \<and> \<not> blue \<and> \<not> pink
           \<and> (r > 80 \<or> g > 80 \<or> b > 80) \<longrightarrow> cell_bucket c = Some ''other'')
    \<and> (\<not> white \<and> \<not> clear \<and> \<not> yellow \<and> \<not> green \<and> \<not> blue \<and> \<not> pink
           \<and> r \<le> 80 \<and> g \<le> 80 \<and> b \<le> 80 \<longrightarrow> cell_bucket c = None)
    \<and> fst (is_row_highlighted row) = (\<exists>x \<in> set row. cell_bucket x \<noteq> None)
    \<and> is_row_highlighted row =
           (case find (\<lambda>x. cell_bucket x \<noteq> None) row of
              None \<Rightarrow> (False, '''')
            | Some x \<Rightarrow> (True, the (cell_bucket x)))"
proof -
  have cb: "cell_bucket c = classify_rgb color r g b"
    using assms(1,2) by (simp add: cell_bucket_def)
  have rows: "fst (is_row_highlighted row) = (\<exists>x \<in> set row. cell_bucket x \<noteq> None)"
    by (simp add: is_row_highlighted_iff list_ex_iff)
  show ?thesis
    unfolding cb classify_rgb_chain white_def clear_def yellow_def green_def blue_def pink_def
    using rows is_row_highlighted_first [of row] by simp
qed

lemma channels_grey: "channels ''FF808080'' = Some (128, 128, 128)"
  by (simp add: channels_def three_channels_def int16_pair_def hexval_def)

lemma channels_dark: "channels ''FF3C3C3C'' = Some (60, 60, 60)"
  by (simp add: channels_def three_channels_def int16_pair_def hexval_def)

theorem fill_rules_first_match_witness:
  "fill_rgb \<lparr>cvalue = VNone, fill_rgb = Some ''FF808080'', font_rgb = None, style = 0\<rparr>
     = Some ''FF808080''
   \<and> channels ''FF808080'' = Some (128, 128, 128)
   \<and> cell_bucket \<lparr>cvalue = VNone, fill_rgb = Some ''FF808080'', font_rgb = None, style = 0\<rparr>
     = Some ''other''
   \<and> is_row_highlighted
       [\<lparr>cvalue = VStr ''x'', fill_rgb = None, font_rgb = None, style = 0\<rparr>,
        \<lparr>cvalue = VNone, fill_rgb = Some ''FF808080'', font_rgb = None, style = 0\<rparr>]
     = (True, ''other'')"
proof -
  let ?c = "\<lparr>cvalue = VNone, fill_rgb = Some ''FF808080'', font_rgb = None, style = 0\<rparr>"
  let ?d = "\<lparr>cvalue = VStr ''x'', fill_rgb = None, font_rgb = None, style = 0\<rparr>"
  have f: "fill_rgb ?c = Some ''FF808080''" by simp
  have d: "cell_bucket ?d = None" by (simp add: cell_bucket_def)
  have b: "cell_bucket ?c = Some ''other''"
    using fill_rules_first_match [OF f channels_grey, of "[?d, ?c]"] by simp
  have "is_row_highlighted [?d, ?c] = (True, ''other'')"
    by (simp add: d b)
  with f b channels_grey show ?thesis by simp
qed

text \<open>
  C9 as the spec words it fails: the fill \<^verbatim>\<open>FF3C3C3C\<close> (channels 60, 60, 60) passes
  rules 1 to 6 and is not near-black (the code's test is all channels below 50), yet it
  gets no bucket, and a row whose only fill it is is not highlighted.
\<close>

theorem other_bucket_counterexample:
  "channels ''FF3C3C3C'' = Some (60, 60, 60)
   \<and> \<not> ((60::int) < 50 \<and> (60::int) < 50 \<and> (60::int) < 50)
   \<and> cell_bucket \<lparr>cvalue = VNone, fill_rgb = Some ''FF3C3C3C'', font_rgb = None, style = 0\<rparr>
     = None
   \<and> is_row_highlighted
       [\<lparr>cvalue = VNone, fill_rgb = Some ''FF3C3C3C'', font_rgb = None, style = 0\<rparr>]
     = (False, '''')"
  by (simp add: cell_bucket_def channels_dark classify_rgb_def)

section \<open>Properties of the mutation highlighter\<close>

subsection \<open>The order of the intersection\<close>

lemma distinct_list_intersection: "distinct (list_intersection f g)"
  by (simp add: list_intersection_def)

lemma set_list_intersection: "set (list_intersection f g) = set f \<inter> set g"
  by (auto simp: list_intersection_def)

lemma is_intersection_list_intersection: "is_intersection list_intersection"
  by (simp add: is_intersection_def distinct_list_intersection set_list_intersection)

lemma isect_unique:
  assumes "is_intersection isect" and "length (list_intersection f g) \<le> 1"
  shows "isect f g = list_intersection f g"
proof -
  let ?a = "isect f g" and ?b = "list_intersection f g"
  from assms(1) have d: "distinct ?a" and s: "set ?a = set ?b"
    by (simp_all add: is_intersection_def set_list_intersection)
  have "length ?a = card (set ?a)" using d by (simp add: distinct_card)
  also have "\<dots> = length ?b" using s distinct_list_intersection [of f g]
    by (simp add: distinct_card)
  finally have len: "length ?a = length ?b" .
  show ?thesis
  proof (cases ?b)
    case Nil
    with len show ?thesis by simp
  next
    case (Cons x xs)
    with assms(2) have b: "?b = [x]" by simp
    with len obtain y where a: "?a = [y]"
      by (cases ?a) auto
    with s b show ?thesis by simp
  qed
qed

lemma process_row_order:
  assumes "is_intersection isect" and "single_code row"
  shows "process_row isect t st i row = process_row list_intersection t st i row"
proof -
  have eq: "isect (parse_mutations_from_column (col_text (map cvalue row) 5))
              (parse_mutations_from_column (col_text (map cvalue row) 6))
        = list_intersection (parse_mutations_from_column (col_text (map cvalue row) 5))
              (parse_mutations_from_column (col_text (map cvalue row) 6))"
    using assms by (simp add: isect_unique single_code_def)
  show ?thesis
    unfolding process_row_def Let_def eq by (rule refl)
qed

lemma process_rows_order:
  assumes "is_intersection isect" and "list_all single_code rows"
  shows "process_rows isect t st i rows = process_rows list_intersection t st i rows"
  using assms(2)
proof (induction rows arbitrary: st i)
  case Nil
  show ?case by simp
next
  case (Cons row rows)
  then show ?case
    by (simp add: process_row_order [OF assms(1)] split: prod.splits)
qed

lemma highlight_mutations_order:
  assumes "is_intersection isect" and "list_all single_code rows"
  shows "highlight_mutations isect rows t = highlight_mutations list_intersection rows t"
  by (simp add: highlight_mutations_def process_file_def process_rows_order [OF assms])

lemma single_code_examples:
  "list_all single_code (example_sheet candidate_t)"
  "list_all single_code (example_sheet candidate_a)"
  "list_all single_code (example_sheet candidate_g_to_t)"
  by code_simp+

subsection \<open>The window of the verifier\<close>

lemma py_slice_take_drop:
  assumes "a \<le> b" and "b \<le> length xs"
  shows "py_slice xs (int a) (int b) = take (b - a) (drop a xs)"
proof -
  have "nat (int b - int a) = b - a" by simp
  then show ?thesis
    using assms by (simp add: py_slice_def Let_def min_def)
qed

lemma py_slice_nat:
  assumes "a \<le> b" and "b \<le> length xs"
  shows "py_slice xs (int a) (int b) = map (\<lambda>i. xs ! i) [a ..< b]"
  unfolding py_slice_take_drop [OF assms]
  using assms by (intro nth_equalityI) simp_all

lemma py_slice_window:
  assumes "0 \<le> s" and "s \<le> e" and "e \<le> int (length xs)"
  shows "py_slice xs s e = map (\<lambda>i. xs ! i) [nat s ..< nat e]"
  using py_slice_nat [of "nat s" "nat e" xs] assms by simp

lemma zip_window:
  "zip [0 ..< b - a] (zip (map f [a ..< b]) (map g [a ..< b]))
     = map (\<lambda>i. (i - a, f i, g i)) [a ..< b]"
  by (rule nth_equalityI) simp_all

lemma comprehension_filter:
  "concat (map (\<lambda>i. if P i then [F i] else []) xs) = map F (filter P xs)"
  by (induction xs) simp_all

lemma mutations_found_window:
  assumes "0 \<le> s" and "s \<le> e" and "e \<le> int (length wt)" and "e \<le> int (length mu)"
  shows "map (\<lambda>m. (wt_base m, mut_base m)) (mutations_found (py_slice wt s e) (py_slice mu s e))
         = [(upper_char (wt ! i), upper_char (mu ! i)). i \<leftarrow> [nat s ..< nat e], islower_char (mu ! i)]"
  using assms
  by (simp add: py_slice_window mutations_found_def zip_window filter_map comp_def
      comprehension_filter del: upt.simps)

subsection \<open>The verifier and the two examples\<close>

text \<open>
  C2. The verifier is called on a window \<open>(s, e)\<close> that lies inside the wild-type
  sequence and the candidate, with a claimed code that parses to \<open>(cf, ct)\<close>. The
  observed transitions are the pairs (wild-type base, candidate base) at the positions of
  the window where the candidate is lowercase. If the claimed pair is observed, the status
  is \<^verbatim>\<open>correct\<close>; otherwise, if some observed pair has the claimed target base and
  another source base (indeed, if anything at all was observed), it is \<^verbatim>\<open>error\<close>; if
  nothing was observed, it is \<^verbatim>\<open>unknown\<close>. On the example sheet with a lowercase
  \<open>t\<close> at window index 6 and \<^verbatim>\<open>C->T\<close> in both detail columns the verifier answers
  \<^verbatim>\<open>correct\<close>, every cell of the row gets the yellow fill \<^verbatim>\<open>FFFF00\<close>, and the
  sequence cell becomes the three runs black, red (the window), black.
\<close>

theorem verifier_classification:
  assumes "is_intersection isect"
    and "wt \<noteq> []" and "mu \<noteq> []"
    and "0 \<le> s" and "s \<le> e" and "e \<le> int (length wt)" and "e \<le> int (length mu)"
    and "match_mutation (upper claimed) = Some (cf, ct)"
  defines "observed \<equiv>
     [(upper_char (wt ! i), upper_char (mu ! i)). i \<leftarrow> [nat s ..< nat e], islower_char (mu ! i)]"
    and "status \<equiv> fst (verify_mutation_with_wt wt mu claimed (s, e))"
  shows "((cf, ct) \<in> set observed \<longrightarrow> status = ''correct'')
    \<and> ((cf, ct) \<notin> set observed \<and> (\<exists>f. f \<noteq> cf \<and> (f, ct) \<in> set observed) \<longrightarrow> status = ''error'')
    \<and> ((cf, ct) \<notin> set observed \<and> observed \<noteq> [] \<longrightarrow> status = ''error'')
    \<and> (observed = [] \<longrightarrow> status = ''unknown'')
    \<and> verify_mutation_with_wt wt_sequence candidate_t ''C->T'' (4, 24)
        = (''correct'', ''C->T'', Verified CHR ''C'' CHR ''T'')
    \<and> highlight_mutations isect (example_sheet candidate_t) target_window
        = ([header_row, wt_row,
            [filled ''FFFF00'' VNone, filled ''FFFF00'' (VOther ''10'' True),
             filled ''FFFF00'' (VStr ''1%''), filled ''FFFF00'' (VStr ''SNP''),
             filled ''FFFF00'' (VStr ''SNP''), filled ''FFFF00'' (VStr ''C->T''),
             filled ''FFFF00'' (VStr ''C->T''),
             filled ''FFFF00'' (VRich [(''AAAA'', Some ''000000''),
                                      (''TGGAGAtACTAGAGGGATGG'', Some ''FF0000''),
                                      (''CCCC'', Some ''000000'')]),
             filled ''FFFF00'' (VStr wt_sequence)]],
           \<lparr>total_highlighted = 1,
            color_statistics = [(''yellow'', 1)],
            mutation_statistics = [(''C->T'', 1)],
            verification_statistics = [(''correct'', 1), (''error'', 0), (''unknown'', 0)],
            error_mutations = [],
            highlighted_rows =
              [\<lparr>row_index = 3, sequence_id = ''045'', mutation_type = ''C->T'',
                highlight_color = ''yellow'', f_value = ''C->T'', g_value = ''C->T'',
                verification_status = ''correct'', actual_mutation = ''C->T'',
                verification_detail = Verified CHR ''C'' CHR ''T''\<rparr>]\<rparr>,
           [])"
proof -
  let ?found = "mutations_found (py_slice wt s e) (py_slice mu s e)"
  have obs: "map (\<lambda>m. (wt_base m, mut_base m)) ?found = observed"
    unfolding observed_def using assms(4-7) by (rule mutations_found_window)
  have ex: "list_ex (\<lambda>m. wt_base m = cf \<and> mut_base m = ct) ?found = ((cf, ct) \<in> set observed)"
    unfolding obs [symmetric] by (auto simp: list_ex_iff)
  have emp: "(?found = []) = (observed = [])"
    unfolding obs [symmetric] by simp
  have st: "status = (if observed = [] then ''unknown''
                      else if (cf, ct) \<in> set observed then ''correct'' else ''error'')"
    unfolding status_def ex [symmetric] emp [symmetric] using assms(2-8)
    by (simp add: verify_mutation_with_wt_def Let_def)
  have general: "((cf, ct) \<in> set observed \<longrightarrow> status = ''correct'')
    \<and> ((cf, ct) \<notin> set observed \<and> (\<exists>f. f \<noteq> cf \<and> (f, ct) \<in> set observed) \<longrightarrow> status = ''error'')
    \<and> ((cf, ct) \<notin> set observed \<and> observed \<noteq> [] \<longrightarrow> status = ''error'')
    \<and> (observed = [] \<longrightarrow> status = ''unknown'')"
    unfolding st by auto
  have direct: "verify_mutation_with_wt wt_sequence candidate_t ''C->T'' (4, 24)
        = (''correct'', ''C->T'', Verified CHR ''C'' CHR ''T'')"
    by code_simp
  have "highlight_mutations isect (example_sheet candidate_t) target_window
        = highlight_mutations list_intersection (example_sheet candidate_t) target_window"
    using assms(1) single_code_examples(1) by (rule highlight_mutations_order)
  also have "\<dots> = ([header_row, wt_row,
            [filled ''FFFF00'' VNone, filled ''FFFF00'' (VOther ''10'' True),
             filled ''FFFF00'' (VStr ''1%''), filled ''FFFF00'' (VStr ''SNP''),
             filled ''FFFF00'' (VStr ''SNP''), filled ''FFFF00'' (VStr ''C->T''),
             filled ''FFFF00'' (VStr ''C->T''),
             filled ''FFFF00'' (VRich [(''AAAA'', Some ''000000''),
                                      (''TGGAGAtACTAGAGGGATGG'', Some ''FF0000''),
                                      (''CCCC'', Some ''000000'')]),
             filled ''FFFF00'' (VStr wt_sequence)]],
           \<lparr>total_highlighted = 1,
            color_statistics = [(''yellow'', 1)],
            mutation_statistics = [(''C->T'', 1)],
            verification_statistics = [(''correct'', 1), (''error'', 0), (''unknown'', 0)],
            error_mutations = [],
            highlighted_rows =
              [\<lparr>row_index = 3, sequence_id = ''045'', mutation_type = ''C->T'',
                highlight_color = ''yellow'', f_value = ''C->T'', g_value = ''C->T'',
                verification_status = ''correct'', actual_mutation = ''C->T'',
                verification_detail = Verified CHR ''C'' CHR ''T''\<rparr>]\<rparr>,
           [])"
    by code_simp
  finally show ?thesis using general direct by simp
qed


theorem verifier_classification_witness:
  "is_intersection list_intersection
   \<and> wt_sequence \<noteq> [] \<and> candidate_t \<noteq> []
   \<and> (0::int) \<le> 4 \<and> (4::int) \<le> 24
   \<and> 24 \<le> int (length wt_sequence) \<and> 24 \<le> int (length candidate_t)
   \<and> match_mutation (upper ''C->T'') = Some (CHR ''C'', CHR ''T'')
   \<and> (CHR ''C'', CHR ''T'') \<in> set [(upper_char (wt_sequence ! i), upper_char (candidate_t ! i)).
                                     i \<leftarrow> [nat 4 ..< nat 24], islower_char (candidate_t ! i)]
   \<and> fst (verify_mutation_with_wt wt_sequence candidate_t ''C->T'' (4, 24)) = ''correct''"
proof -
  have h1: "wt_sequence \<noteq> []" and h2: "candidate_t \<noteq> []"
    by (simp_all add: wt_sequence_def candidate_t_def)
  have h3: "(0::int) \<le> 4" and h4: "(4::int) \<le> 24" by simp_all
  have h5: "24 \<le> int (length wt_sequence)" and h6: "24 \<le> int (length candidate_t)"
    by (simp_all add: wt_sequence_def candidate_t_def)
  have h7: "match_mutation (upper ''C->T'') = Some (CHR ''C'', CHR ''T'')"
    by code_simp
  have obs: "(CHR ''C'', CHR ''T'') \<in> set [(upper_char (wt_sequence ! i), upper_char (candidate_t ! i)).
                                     i \<leftarrow> [nat 4 ..< nat 24], islower_char (candidate_t ! i)]"
    by code_simp
  from verifier_classification [OF is_intersection_list_intersection h1 h2 h3 h4 h5 h6 h7] obs
  have "fst (verify_mutation_with_wt wt_sequence candidate_t ''C->T'' (4, 24)) = ''correct''"
    by blast
  with is_intersection_list_intersection h1 h2 h5 h6 h7 obs show ?thesis by simp
qed

text \<open>
  C3. On the example sheet with a lowercase \<open>a\<close> at window index 6 and \<^verbatim>\<open>C->T\<close> in both
  detail columns, the only transition observed in the window is \<^verbatim>\<open>C->A\<close>, the verifier
  answers \<^verbatim>\<open>error\<close>, and the highlighter leaves the sheet as it was and reports no
  highlighted row. (The row is in fact set aside before the verifier is asked:
  \<^verbatim>\<open>_check_mutation_in_position\<close> finds no lowercase \<open>t\<close> in the window.)
\<close>

theorem negative_example_not_highlighted:
  assumes "is_intersection isect"
  shows "mutations_found (py_slice wt_sequence 4 24) (py_slice candidate_a 4 24)
           = [\<lparr>position = 6, wt_base = CHR ''C'', mut_base = CHR ''A'', actual = ''C->A''\<rparr>]
    \<and> verify_mutation_with_wt wt_sequence candidate_a ''C->T'' (4, 24)
        = (''error'', ''C->A'', ObservedInstead ''C->T'' ''C->A'')
    \<and> check_mutation_in_position candidate_a ''C->T'' (4, 24) = False
    \<and> highlight_mutations isect (example_sheet candidate_a) target_window
        = (example_sheet candidate_a,
           \<lparr>total_highlighted = 0,
            color_statistics = [],
            mutation_statistics = [],
            verification_statistics = [(''correct'', 0), (''error'', 0), (''unknown'', 0)],
            error_mutations = [],
            highlighted_rows = []\<rparr>,
           [])"
proof -
  have found: "mutations_found (py_slice wt_sequence 4 24) (py_slice candidate_a 4 24)
           = [\<lparr>position = 6, wt_base = CHR ''C'', mut_base = CHR ''A'', actual = ''C->A''\<rparr>]"
    by code_simp
  have direct: "verify_mutation_with_wt wt_sequence candidate_a ''C->T'' (4, 24)
        = (''error'', ''C->A'', ObservedInstead ''C->T'' ''C->A'')"
    by code_simp
  have check: "check_mutation_in_position candidate_a ''C->T'' (4, 24) = False"
    by code_simp
  have "highlight_mutations isect (example_sheet candidate_a) target_window
        = highlight_mutations list_intersection (example_sheet candidate_a) target_window"
    using assms single_code_examples(2) by (rule highlight_mutations_order)
  also have "\<dots> = (example_sheet candidate_a,
           \<lparr>total_highlighted = 0,
            color_statistics = [],
            mutation_statistics = [],
            verification_statistics = [(''correct'', 0), (''error'', 0), (''unknown'', 0)],
            error_mutations = [],
            highlighted_rows = []\<rparr>,
           [])"
    by code_simp
  finally show ?thesis using found direct check by simp
qed

theorem negative_example_not_highlighted_witness:
  "is_intersection list_intersection
   \<and> fst (verify_mutation_with_wt wt_sequence candidate_a ''C->T'' (4, 24)) = ''error''
   \<and> fst (highlight_mutations list_intersection (example_sheet candidate_a) target_window)
       = example_sheet candidate_a
   \<and> total_highlighted
        (fst (snd (highlight_mutations list_intersection (example_sheet candidate_a) target_window)))
       = 0"
  using negative_example_not_highlighted [OF is_intersection_list_intersection]
    is_intersection_list_intersection
  by simp

subsection \<open>Only verified rows are highlighted\<close>

lemma find_from_bound:
  "find_from pat s i = Some j \<Longrightarrow> i \<le> j \<and> (j - i) + length pat \<le> length s"
proof (induction s arbitrary: i)
  case Nil
  then show ?case by (simp split: if_splits)
next
  case (Cons c cs)
  show ?case
  proof (cases "take (length pat) (c # cs) = pat")
    case True
    have "length (take (length pat) (c # cs)) = length pat"
      using True by simp
    then have "length pat \<le> length (c # cs)"
      by (simp only: length_take)
    with True Cons.prems show ?thesis by simp
  next
    case False
    with Cons.prems have "find_from pat cs (Suc i) = Some j" by simp
    from Cons.IH [OF this] show ?thesis by (simp; arith)
  qed
qed

lemma find_target_position_bounds:
  assumes "find_target_sequence_position t h = (s, e)" and "0 \<le> s"
  shows "s \<le> e \<and> e \<le> int (length h) \<and> h \<noteq> []"
proof (cases "find_from t (upper h) 0")
  case None
  with assms show ?thesis
    by (simp add: find_target_sequence_position_def py_find_def Let_def split: if_splits)
next
  case (Some j)
  from find_from_bound [OF this] have "j + length t \<le> length h"
    by (simp add: upper_def)
  with assms Some show ?thesis
    by (simp add: find_target_sequence_position_def py_find_def Let_def split: if_splits)
qed

lemma lower_base_islower: "is_base t \<Longrightarrow> islower_char (lower_char t)"
  by (auto simp: is_base_def islower_char_def lower_char_def)

lemma match_mutation_base: "match_mutation u = Some (f, t) \<Longrightarrow> is_base f \<and> is_base t"
  by (cases u rule: match_mutation.cases) (auto split: if_splits)

lemma mutations_found_nonempty:
  assumes "length wr = length mr" and "c \<in> set mr" and "islower_char c"
  shows "mutations_found wr mr \<noteq> []"
proof -
  from assms(2) obtain i where i: "i < length mr" "mr ! i = c"
    by (auto simp: in_set_conv_nth)
  let ?z = "zip [0 ..< length wr] (zip wr mr)"
  have il: "i < length ?z" using i assms(1) by simp
  have "?z ! i = (i, wr ! i, c)" using i assms(1) by simp
  with il have "(i, wr ! i, c) \<in> set ?z" by (metis nth_mem)
  with assms(3)
  have "(i, wr ! i, c) \<in> set (filter (\<lambda>(i, wt_char, mut_char). islower_char mut_char)
                                 (zip [0 ..< length wr] (zip wr mr)))"
    by simp
  then have "filter (\<lambda>(i, wt_char, mut_char). islower_char mut_char)
               (zip [0 ..< length wr] (zip wr mr)) \<noteq> []"
    by (metis empty_iff empty_set)
  then show ?thesis by (simp add: mutations_found_def)
qed

lemma verify_after_check:
  assumes "check_mutation_in_position h m (s, e)"
    and "s \<le> e" and "e \<le> int (length wt)" and "wt \<noteq> []"
  shows "fst (verify_mutation_with_wt wt h m (s, e)) = ''correct''
       \<or> fst (verify_mutation_with_wt wt h m (s, e)) = ''error''"
proof -
  from assms(1) obtain f t where
    h: "h \<noteq> []" and s: "0 \<le> s" and e: "e \<le> int (length h)"
    and m: "match_mutation (upper m) = Some (f, t)"
    and t: "lower_char t \<in> set (py_slice h s e)"
    by (auto simp: check_mutation_in_position_def split: if_splits option.splits)
  have len: "length (py_slice wt s e) = length (py_slice h s e)"
    using s assms(2,3) e by (simp add: py_slice_window)
  from match_mutation_base [OF m] have "is_base t" by simp
  then have "islower_char (lower_char t)" by (rule lower_base_islower)
  with len t have "mutations_found (py_slice wt s e) (py_slice h s e) \<noteq> []"
    by (rule mutations_found_nonempty)
  then show ?thesis
    using assms(3,4) h s e m by (simp add: verify_mutation_with_wt_def Let_def)
qed

lemma pick_mutation_checked:
  "pick_mutation used h pos ms = Some (m, c) \<Longrightarrow> check_mutation_in_position h m pos"
  by (induction ms) (auto split: if_splits option.splits)

lemma apply_highlight_fields:
  "current_has_target (fst (apply_highlight st i row f g h m c)) = current_has_target st"
  "current_target_pos (fst (apply_highlight st i row f g h m c)) = current_target_pos st"
  "current_wt_sequence (fst (apply_highlight st i row f g h m c)) = current_wt_sequence st"
  by (simp_all add: apply_highlight_def split: prod.splits option.splits)

lemma apply_highlight_invariant:
  assumes "anchored st" and "current_has_target st" and "all_correct st"
    and "check_mutation_in_position h m (current_target_pos st)"
  shows "anchored (fst (apply_highlight st i row f g h m c))
       \<and> all_correct (fst (apply_highlight st i row f g h m c))"
proof -
  obtain s e where pos: "current_target_pos st = (s, e)" by (cases "current_target_pos st")
  from assms(1,2) pos have b: "s \<le> e" "e \<le> int (length (current_wt_sequence st))"
    "current_wt_sequence st \<noteq> []"
    by (simp_all add: anchored_def)
  from verify_after_check [OF assms(4) [unfolded pos] b]
  have v: "fst (verify_mutation_with_wt (current_wt_sequence st) h m (s, e)) = ''correct''
         \<or> fst (verify_mutation_with_wt (current_wt_sequence st) h m (s, e)) = ''error''" .
  obtain vs am vd where
    r: "verify_mutation_with_wt (current_wt_sequence st) h m (s, e) = (vs, am, vd)"
    by (cases "verify_mutation_with_wt (current_wt_sequence st) h m (s, e)")
  with v have vs: "vs = ''correct'' \<or> vs = ''error''" by simp
  have a: "anchored (fst (apply_highlight st i row f g h m c))"
    using assms(1) by (simp add: anchored_def apply_highlight_fields)
  from vs have "all_correct (fst (apply_highlight st i row f g h m c))"
  proof
    assume "vs = ''error''"
    with assms(3) r pos show ?thesis
      by (simp add: apply_highlight_def all_correct_def)
  next
    assume "vs = ''correct''"
    with assms(3) r pos show ?thesis
      by (simp add: apply_highlight_def all_correct_def split: option.splits)
  qed
  with a show ?thesis by simp
qed

lemma process_row_invariant:
  assumes "anchored st" and "all_correct st"
  shows "anchored (fst (process_row isect t st i row))
       \<and> all_correct (fst (process_row isect t st i row))"
proof -
  let ?rd = "map cvalue row"
  let ?h = "col_text ?rd 7"
  let ?f = "col_text ?rd 5"
  let ?g = "col_text ?rd 6"
  let ?P = "\<lambda>x. anchored (fst x) \<and> all_correct (fst x)"
  have same: "?P (st, row)" using assms by simp
  obtain hdr sid where hd: "is_sequence_header ?rd = (hdr, sid)"
    by (cases "is_sequence_header ?rd")
  show ?thesis
  proof (cases hdr)
    case True
    with hd have "process_row isect t st i row =
        (st\<lparr>current_seq_id := sid, current_has_target := False,
            current_target_pos := (- 1, - 1), current_highlighted_mutations := []\<rparr>, row)"
      by (simp add: process_row_def)
    with assms(2) show ?thesis by (simp add: anchored_def all_correct_def)
  next
    case False
    then have hf: "hdr = False" by simp
    note nh = hd [unfolded hf]
    show ?thesis
    proof (cases "all_empty ?rd")
      case True
      with nh have "process_row isect t st i row = (st, row)"
        by (simp add: process_row_def)
      with same show ?thesis by simp
    next
      case ne: False
      show ?thesis
      proof (cases "col_text ?rd 3 = ''WT'' \<and> col_text ?rd 4 = ''WT''")
        case True
        show ?thesis
        proof (cases "0 \<le> fst (find_target_sequence_position t ?h)")
          case found: True
          obtain s e where pos: "find_target_sequence_position t ?h = (s, e)"
            by (cases "find_target_sequence_position t ?h")
          with found have "0 \<le> s" by simp
          from find_target_position_bounds [OF pos this]
          have b: "s \<le> e" "e \<le> int (length ?h)" "?h \<noteq> []" by simp_all
          from nh ne True found pos have "process_row isect t st i row =
              (st\<lparr>current_has_target := True, current_target_pos := (s, e),
                  current_wt_sequence := ?h\<rparr>, row)"
            by (simp add: process_row_def Let_def)
          with assms(2) b \<open>0 \<le> s\<close> show ?thesis
            by (simp add: anchored_def all_correct_def)
        next
          case False
          with nh ne True have "process_row isect t st i row = (st, row)"
            by (simp add: process_row_def Let_def)
          with same show ?thesis by simp
        qed
      next
        case False
        then have nwt: "(col_text ?rd 3 = ''WT'' \<and> col_text ?rd 4 = ''WT'') = False"
          by simp
        show ?thesis
        proof (cases "current_has_target st")
          case False
          with nh ne have "process_row isect t st i row = (st, row)"
            by (simp add: process_row_def Let_def nwt)
          with same show ?thesis by simp
        next
          case ht: True
          let ?pick = "pick_mutation (current_highlighted_mutations st) ?h (current_target_pos st)
                         (isect (parse_mutations_from_column ?f) (parse_mutations_from_column ?g))"
          have "process_row isect t st i row = (st, row)
              \<or> (\<exists>m c. ?pick = Some (m, c)
                    \<and> process_row isect t st i row = apply_highlight st i row ?f ?g ?h m c)"
            using nh ne ht
            by (simp add: process_row_def Let_def nwt split: option.splits)
          then show ?thesis
          proof
            assume "process_row isect t st i row = (st, row)"
            with same show ?thesis by simp
          next
            assume "\<exists>m c. ?pick = Some (m, c)
                    \<and> process_row isect t st i row = apply_highlight st i row ?f ?g ?h m c"
            then obtain m c where p: "?pick = Some (m, c)"
              and r: "process_row isect t st i row = apply_highlight st i row ?f ?g ?h m c"
              by blast
            from apply_highlight_invariant [OF assms(1) ht assms(2) pick_mutation_checked [OF p]]
            show ?thesis unfolding r .
          qed
        qed
      qed
    qed
  qed
qed

lemma process_rows_invariant:
  assumes "anchored st" and "all_correct st"
  shows "all_correct (fst (process_rows isect t st i rows))"
  using assms
proof (induction rows arbitrary: st i)
  case Nil
  then show ?case by simp
next
  case (Cons row rows)
  obtain st1 row1 where r: "process_row isect t st i row = (st1, row1)"
    by (cases "process_row isect t st i row")
  with process_row_invariant [OF Cons.prems, of isect t i row]
  have "anchored st1" "all_correct st1" by simp_all
  from Cons.IH [OF this, of "Suc i"] r show ?case
    by (cases "process_rows isect t st1 (Suc i) rows") simp
qed

lemma count_result_correct:
  assumes "verification_status r = ''correct''"
  shows "error_mutations (count_result rep r) = error_mutations rep"
    and "highlighted_rows (count_result rep r) = highlighted_rows rep"
  using assms by (simp_all add: count_result_def)

lemma foldl_count_result_correct:
  assumes "list_all (\<lambda>r. verification_status r = ''correct'') rs"
  shows "error_mutations (foldl count_result rep rs) = error_mutations rep
       \<and> highlighted_rows (foldl count_result rep rs) = highlighted_rows rep"
  using assms by (induction rs arbitrary: rep) (simp_all add: count_result_correct)

lemma process_file_only_correct:
  "error_mutations (fst (snd (process_file isect t rows))) = []
   \<and> list_all (\<lambda>r. verification_status r = ''correct'')
        (highlighted_rows (fst (snd (process_file isect t rows))))"
proof -
  obtain st2 rows2 where pr: "process_rows isect t initial_state 1 rows = (st2, rows2)"
    by (cases "process_rows isect t initial_state 1 rows")
  have "anchored initial_state" "all_correct initial_state"
    by (simp_all add: anchored_def all_correct_def initial_state_def)
  from process_rows_invariant [OF this, of isect t 1 rows]
  have c: "list_all (\<lambda>r. verification_status r = ''correct'') (highlight_results st2)"
    unfolding pr by (simp add: all_correct_def)
  have rep: "fst (snd (process_file isect t rows)) = make_report (highlight_results st2)"
    unfolding process_file_def pr by simp
  show ?thesis
    unfolding rep make_report_def using foldl_count_result_correct [OF c] c by simp
qed

text \<open>
  C1. Whatever the sheet, every row that the highlighter applies was verified as
  \<^verbatim>\<open>correct\<close>, and the list \<^verbatim>\<open>error_mutations\<close> of the report is empty: the report is
  built from the applied rows alone, and a row whose verification is \<^verbatim>\<open>error\<close> leaves
  the loop body before it is recorded. On the sheet whose candidate has its lowercase \<open>t\<close>
  where the wild type has \<open>G\<close> (claimed \<^verbatim>\<open>C->T\<close>, observed \<^verbatim>\<open>G->T\<close>) the verifier
  answers \<^verbatim>\<open>error\<close>, the sheet is left as it was, the reason is printed, and the report
  counts no error and lists none.
\<close>

theorem rejected_candidate_not_reported:
  "error_mutations (fst (snd (process_file isect t rows))) = []
   \<and> list_all (\<lambda>r. verification_status r = ''correct'')
        (highlighted_rows (fst (snd (process_file isect t rows))))
   \<and> verify_mutation_with_wt wt_sequence candidate_g_to_t ''C->T'' (4, 24)
       = (''error'', ''G->T'', WrongSource ''C->T'' ''G->T'' 11 CHR ''G'' CHR ''C'')
   \<and> highlight_mutations list_intersection (example_sheet candidate_g_to_t) target_window
       = (example_sheet candidate_g_to_t,
          \<lparr>total_highlighted = 0,
           color_statistics = [],
           mutation_statistics = [],
           verification_statistics = [(''correct'', 0), (''error'', 0), (''unknown'', 0)],
           error_mutations = [],
           highlighted_rows = []\<rparr>,
          [(3, WrongSource ''C->T'' ''G->T'' 11 CHR ''G'' CHR ''C'')])"
proof -
  have direct: "verify_mutation_with_wt wt_sequence candidate_g_to_t ''C->T'' (4, 24)
       = (''error'', ''G->T'', WrongSource ''C->T'' ''G->T'' 11 CHR ''G'' CHR ''C'')"
    by code_simp
  have run: "highlight_mutations list_intersection (example_sheet candidate_g_to_t) target_window
       = (example_sheet candidate_g_to_t,
          \<lparr>total_highlighted = 0,
           color_statistics = [],
           mutation_statistics = [],
           verification_statistics = [(''correct'', 0), (''error'', 0), (''unknown'', 0)],
           error_mutations = [],
           highlighted_rows = []\<rparr>,
          [(3, WrongSource ''C->T'' ''G->T'' 11 CHR ''G'' CHR ''C'')])"
    by code_simp
  from process_file_only_correct [of isect t rows] direct run show ?thesis by simp
qed

section \<open>Properties of the simplifier\<close>

lemma foldl_append_one: "foldl (\<lambda>res x. res @ [f x]) acc xs = acc @ map f xs"
  by (induction xs arbitrary: acc) simp_all

lemma simplify_group_eq:
  "simplify_group results g =
     results @
     (if list_ex is_highlighted (all_entries g) then
        map (\<lambda>e. \<lparr>sequence_id_s = seq_id g, reference_name_s = ref_name g, row_type = ''WT'',
                  red_20_bases = ''-'', original_row_values = original_row e,
                  is_highlighted_s = False, highlight_color_s = '''',
                  original_row_num = row_number e, is_simplified = False\<rparr>)
          (filter is_wt (all_entries g))
        @ map (\<lambda>e. \<lparr>sequence_id_s = seq_id g, reference_name_s = ref_name g, row_type = ''SNP'',
                    red_20_bases =
                      (if original_row_cells e \<noteq> []
                          \<and> fst (extract_red_bases_from_sequence (full_sequence e)
                                 (original_row_cells e)) \<noteq> []
                       then fst (extract_red_bases_from_sequence (full_sequence e)
                                   (original_row_cells e))
                       else ''-''),
                    original_row_values = original_row e,
                    is_highlighted_s = True, highlight_color_s = highlight_color_e e,
                    original_row_num = row_number e, is_simplified = False\<rparr>)
            (filter is_highlighted (all_entries g))
      else
        map (\<lambda>e. \<lparr>sequence_id_s = seq_id g, reference_name_s = ref_name g, row_type = ''WT'',
                  red_20_bases = ''-'', original_row_values = original_row e,
                  is_highlighted_s = False, highlight_color_s = '''',
                  original_row_num = row_number e, is_simplified = True\<rparr>)
          (filter is_wt (all_entries g)))"
proof -
  have hl: "(0 < length (filter is_highlighted (all_entries g)))
            = list_ex is_highlighted (all_entries g)"
    by (simp add: list_ex_iff filter_empty_conv)
  show ?thesis
    unfolding simplify_group_def Let_def hl foldl_append_one
    by (simp cong: if_cong)
qed

lemma simplify_group_append: "simplify_group results g = results @ simplify_group [] g"
  by (simp add: simplify_group_eq [of results] simplify_group_eq [of "[]"])

lemma foldl_simplify_group:
  "foldl simplify_group acc gs = acc @ concat (map (simplify_group []) gs)"
proof (induction gs arbitrary: acc)
  case Nil
  show ?case by simp
next
  case (Cons g gs)
  show ?case
    by (simp add: Cons.IH simplify_group_append [of acc g])
qed

lemma simplify_data_concat: "simplify_data gs = concat (map (simplify_group []) gs)"
  by (simp add: simplify_data_def foldl_simplify_group)

text \<open>
  C5. For a group with at least one highlighted entry the simplifier appends, to the rows
  it has so far, one row per wild-type entry (type \<^verbatim>\<open>WT\<close>, red bases \<^verbatim>\<open>-\<close>, not
  simplified) followed by one row per highlighted entry (type \<^verbatim>\<open>SNP\<close>, red bases from
  the red-run extraction or \<^verbatim>\<open>-\<close>, not simplified), each kind in the order of the
  entries; entries of neither kind give no row. So the group gives as many rows as it has
  wild-type entries plus highlighted entries, and the output of a list of groups is the
  outputs of the groups one after the other, in the order of the list.
\<close>

theorem highlighted_group_output:
  assumes "list_ex is_highlighted (all_entries g)"
  shows "simplify_group results g =
           results
           @ map (\<lambda>e. \<lparr>sequence_id_s = seq_id g, reference_name_s = ref_name g,
                       row_type = ''WT'', red_20_bases = ''-'',
                       original_row_values = original_row e, is_highlighted_s = False,
                       highlight_color_s = '''', original_row_num = row_number e,
                       is_simplified = False\<rparr>)
               (filter is_wt (all_entries g))
           @ map (\<lambda>e. \<lparr>sequence_id_s = seq_id g, reference_name_s = ref_name g,
                       row_type = ''SNP'',
                       red_20_bases =
                         (if original_row_cells e \<noteq> []
                             \<and> fst (extract_red_bases_from_sequence (full_sequence e)
                                    (original_row_cells e)) \<noteq> []
                          then fst (extract_red_bases_from_sequence (full_sequence e)
                                      (original_row_cells e))
                          else ''-''),
                       original_row_values = original_row e, is_highlighted_s = True,
                       highlight_color_s = highlight_color_e e,
                       original_row_num = row_number e, is_simplified = False\<rparr>)
               (filter is_highlighted (all_entries g))
     \<and> length (simplify_group [] g)
         = length (filter is_wt (all_entries g)) + length (filter is_highlighted (all_entries g))
     \<and> map original_row_num (simplify_group [] g)
         = map row_number (filter is_wt (all_entries g))
           @ map row_number (filter is_highlighted (all_entries g))
     \<and> simplify_data (before @ [g] @ after)
         = simplify_data before @ simplify_group [] g @ simplify_data after"
  using assms
  by (simp add: simplify_group_eq [of results] simplify_group_eq [of "[]"] simplify_data_concat
      comp_def)


theorem highlighted_group_output_witness:
  "list_ex is_highlighted (all_entries (hd (parse_source_file highlighted_group_sheet)))
   \<and> map row_number (all_entries (hd (parse_source_file highlighted_group_sheet))) = [2, 3, 4, 5]
   \<and> map original_row_num (simplify_group [] (hd (parse_source_file highlighted_group_sheet)))
       = [2, 3, 3, 4]
   \<and> length (simplify_group [] (hd (parse_source_file highlighted_group_sheet))) = 4"
proof -
  let ?g = "hd (parse_source_file highlighted_group_sheet)"
  have h: "list_ex is_highlighted (all_entries ?g)" by code_simp
  have n: "map row_number (all_entries ?g) = [2, 3, 4, 5]" by code_simp
  have a: "map row_number (filter is_wt (all_entries ?g)) = [2, 3]" by code_simp
  have b: "map row_number (filter is_highlighted (all_entries ?g)) = [3, 4]" by code_simp
  from arg_cong [OF a, of length] arg_cong [OF b, of length]
  have l: "length (filter is_wt (all_entries ?g)) = 2"
    "length (filter is_highlighted (all_entries ?g)) = 2"
    by simp_all
  note th = highlighted_group_output [OF h, of "[]" "[]" "[]"]
  have len: "length (simplify_group [] ?g) = 4"
    using th [THEN conjunct2, THEN conjunct1] l by simp
  have nums: "map original_row_num (simplify_group [] ?g) = [2, 3, 3, 4]"
    using th [THEN conjunct2, THEN conjunct2, THEN conjunct1] a b by simp
  from h n nums len show ?thesis by simp
qed

text \<open>
  C10. The two selections of a group are made independently. An entry that is wild-type
  and highlighted is put out twice, first among the wild-type rows (type \<^verbatim>\<open>WT\<close>, red
  bases \<^verbatim>\<open>-\<close>) and later among the highlighted rows (type \<^verbatim>\<open>SNP\<close>, with its highlight
  colour); and every row that comes from the highlighted selection has the type
  \<^verbatim>\<open>SNP\<close>, whatever the \<^verbatim>\<open>data_type\<close> of its entry.
\<close>

theorem wild_type_and_highlighted_emitted_twice:
  assumes "e \<in> set (all_entries g)" and "is_wt e" and "is_highlighted e"
  shows "(\<exists>pre mid post.
            simplify_group [] g =
              pre
              @ [\<lparr>sequence_id_s = seq_id g, reference_name_s = ref_name g,
                   row_type = ''WT'', red_20_bases = ''-'',
                   original_row_values = original_row e, is_highlighted_s = False,
                   highlight_color_s = '''', original_row_num = row_number e,
                   is_simplified = False\<rparr>]
              @ mid
              @ [\<lparr>sequence_id_s = seq_id g, reference_name_s = ref_name g,
                   row_type = ''SNP'',
                   red_20_bases =
                     (if original_row_cells e \<noteq> []
                         \<and> fst (extract_red_bases_from_sequence (full_sequence e)
                                (original_row_cells e)) \<noteq> []
                      then fst (extract_red_bases_from_sequence (full_sequence e)
                                  (original_row_cells e))
                      else ''-''),
                   original_row_values = original_row e, is_highlighted_s = True,
                   highlight_color_s = highlight_color_e e,
                   original_row_num = row_number e, is_simplified = False\<rparr>]
              @ post)
     \<and> map row_type (drop (length (filter is_wt (all_entries g))) (simplify_group [] g))
         = replicate (length (filter is_highlighted (all_entries g))) ''SNP''"
proof -
  let ?W = "\<lambda>e. \<lparr>sequence_id_s = seq_id g, reference_name_s = ref_name g,
                   row_type = ''WT'', red_20_bases = ''-'',
                   original_row_values = original_row e, is_highlighted_s = False,
                   highlight_color_s = '''', original_row_num = row_number e,
                   is_simplified = False\<rparr>"
  let ?S = "\<lambda>e. \<lparr>sequence_id_s = seq_id g, reference_name_s = ref_name g,
                   row_type = ''SNP'',
                   red_20_bases =
                     (if original_row_cells e \<noteq> []
                         \<and> fst (extract_red_bases_from_sequence (full_sequence e)
                                (original_row_cells e)) \<noteq> []
                      then fst (extract_red_bases_from_sequence (full_sequence e)
                                  (original_row_cells e))
                      else ''-''),
                   original_row_values = original_row e, is_highlighted_s = True,
                   highlight_color_s = highlight_color_e e,
                   original_row_num = row_number e, is_simplified = False\<rparr>"
  from assms(1,3) have h: "list_ex is_highlighted (all_entries g)"
    by (auto simp: list_ex_iff)
  have out: "simplify_group [] g =
      map ?W (filter is_wt (all_entries g)) @ map ?S (filter is_highlighted (all_entries g))"
    using h by (simp add: simplify_group_eq [of "[]"])
  from assms(1,2) have "e \<in> set (filter is_wt (all_entries g))" by simp
  then obtain a b where w: "filter is_wt (all_entries g) = a @ e # b"
    by (auto dest: split_list)
  from assms(1,3) have "e \<in> set (filter is_highlighted (all_entries g))" by simp
  then obtain c d where s: "filter is_highlighted (all_entries g) = c @ e # d"
    by (auto dest: split_list)
  have "simplify_group [] g =
      map ?W a @ [?W e] @ (map ?W b @ map ?S c) @ [?S e] @ map ?S d"
    unfolding out w s by simp
  then have twice: "\<exists>pre mid post. simplify_group [] g = pre @ [?W e] @ mid @ [?S e] @ post"
    by blast
  have "map row_type (drop (length (filter is_wt (all_entries g))) (simplify_group [] g))
         = replicate (length (filter is_highlighted (all_entries g))) ''SNP''"
    unfolding out by (simp add: comp_def map_replicate_const)
  with twice show ?thesis by simp
qed

theorem wild_type_and_highlighted_emitted_twice_witness:
  "all_entries (hd (parse_source_file highlighted_group_sheet)) ! 1
     \<in> set (all_entries (hd (parse_source_file highlighted_group_sheet)))
   \<and> is_wt (all_entries (hd (parse_source_file highlighted_group_sheet)) ! 1)
   \<and> is_highlighted (all_entries (hd (parse_source_file highlighted_group_sheet)) ! 1)
   \<and> data_type (all_entries (hd (parse_source_file highlighted_group_sheet)) ! 1) = ''WT''
   \<and> map row_type (drop 2 (simplify_group [] (hd (parse_source_file highlighted_group_sheet))))
       = [''SNP'', ''SNP'']"
proof -
  let ?g = "hd (parse_source_file highlighted_group_sheet)"
  let ?e = "all_entries ?g ! 1"
  have n: "length (all_entries ?g) = 4" by code_simp
  then have m: "?e \<in> set (all_entries ?g)" by simp
  have w: "is_wt ?e" and h: "is_highlighted ?e" and d: "data_type ?e = ''WT''"
    by code_simp+
  have a: "length (filter is_wt (all_entries ?g)) = 2" by code_simp
  have b: "length (filter is_highlighted (all_entries ?g)) = 2" by code_simp
  have "map row_type (drop 2 (simplify_group [] ?g)) = [''SNP'', ''SNP'']"
    using wild_type_and_highlighted_emitted_twice [OF m w h, THEN conjunct2]
    unfolding a b by (simp add: numeral_2_eq_2)
  with m w h d show ?thesis by simp
qed

text \<open>
  C4. The values passed through are never cut: every simplified row carries the whole
  \<^verbatim>\<open>original_row\<close> of its entry, which is the whole row of the sheet, and the writer
  writes all of it from the second value on. On the sheet whose only group has no
  highlighted row and whose wild-type row has two columns after the sequence columns, the
  single output row is marked simplified and still has those two values.
\<close>

theorem simplified_rows_keep_all_columns:
  "map original_row_values (simplify_group [] g)
     = map original_row (filter is_wt (all_entries g))
       @ (if list_ex is_highlighted (all_entries g)
          then map original_row (filter is_highlighted (all_entries g)) else [])
   \<and> original_row (parse_data_row row_data i gid gref hl col cells) = row_data
   \<and> simplify_sheet plain_group_sheet
       = [\<lparr>sequence_id_s = ''045-refGmACC1HiTom'', reference_name_s = ''GmACC1HiTom'',
           row_type = ''WT'', red_20_bases = ''-'',
           original_row_values =
             [VNone, VOther ''1000'' True, VStr ''90%'', VStr ''WT'', VStr ''WT'', VStr ''-'',
              VStr ''-'', VStr ''AAAATGGAGACACTAGAGGGATGGCCCC'',
              VStr ''AAAATGGAGACACTAGAGGGATGGCCCC'', VStr ''note'', VOther ''7'' True],
           is_highlighted_s = False, highlight_color_s = '''', original_row_num = 2,
           is_simplified = True\<rparr>]
   \<and> map written_row (simplify_sheet plain_group_sheet)
       = [[VStr ''045-refGmACC1HiTom'', VStr ''-'', VStr ''WT'', VStr ''-'',
           VOther ''1000'' True, VStr ''90%'', VStr ''WT'', VStr ''WT'', VStr ''-'', VStr ''-'',
           VStr ''AAAATGGAGACACTAGAGGGATGGCCCC'', VStr ''AAAATGGAGACACTAGAGGGATGGCCCC'',
           VStr ''note'', VOther ''7'' True]]"
proof -
  have g: "map original_row_values (simplify_group [] g)
     = map original_row (filter is_wt (all_entries g))
       @ (if list_ex is_highlighted (all_entries g)
          then map original_row (filter is_highlighted (all_entries g)) else [])"
    by (simp add: simplify_group_eq [of "[]"] comp_def)
  have p: "original_row (parse_data_row row_data i gid gref hl col cells) = row_data"
    by (simp add: parse_data_row_def Let_def)
  have s: "simplify_sheet plain_group_sheet
       = [\<lparr>sequence_id_s = ''045-refGmACC1HiTom'', reference_name_s = ''GmACC1HiTom'',
           row_type = ''WT'', red_20_bases = ''-'',
           original_row_values =
             [VNone, VOther ''1000'' True, VStr ''90%'', VStr ''WT'', VStr ''WT'', VStr ''-'',
              VStr ''-'', VStr ''AAAATGGAGACACTAGAGGGATGGCCCC'',
              VStr ''AAAATGGAGACACTAGAGGGATGGCCCC'', VStr ''note'', VOther ''7'' True],
           is_highlighted_s = False, highlight_color_s = '''', original_row_num = 2,
           is_simplified = True\<rparr>]"
    by code_simp
  have w: "map written_row (simplify_sheet plain_group_sheet)
       = [[VStr ''045-refGmACC1HiTom'', VStr ''-'', VStr ''WT'', VStr ''-'',
           VOther ''1000'' True, VStr ''90%'', VStr ''WT'', VStr ''WT'', VStr ''-'', VStr ''-'',
           VStr ''AAAATGGAGACACTAGAGGGATGGCCCC'', VStr ''AAAATGGAGACACTAGAGGGATGGCCCC'',
           VStr ''note'', VOther ''7'' True]]"
    unfolding s by (simp add: written_row_def)
  from g p s w show ?thesis by simp
qed

subsection \<open>The red window\<close>

lemma red_parts_concat:
  "snd (red_parts parts pos start acc)
     = acc @ filter (\<lambda>t. t \<noteq> [])
               (map fst (filter (\<lambda>(t, col). case col of None \<Rightarrow> False
                                              | Some rgb \<Rightarrow> rgb \<noteq> [] \<and> is_red_color rgb) parts))"
  by (induction parts pos start acc rule: red_parts.induct) (auto simp: Let_def split: option.splits)

lemma concat_filter_nonempty: "concat (filter (\<lambda>t. t \<noteq> []) xs) = concat xs"
  by (induction xs) simp_all

lemma rich_red_text:
  assumes "cvalue c = VRich parts"
  shows "fst (extract_red_from_cell_with_position c)
         = concat (map fst (filter (\<lambda>(t, col). case col of None \<Rightarrow> False
                                              | Some rgb \<Rightarrow> rgb \<noteq> [] \<and> is_red_color rgb) parts))"
proof -
  let ?red = "map fst (filter (\<lambda>(t, col). case col of None \<Rightarrow> False
                                              | Some rgb \<Rightarrow> rgb \<noteq> [] \<and> is_red_color rgb) parts)"
  obtain st ps where r: "red_parts parts 0 (- 1) [] = (st, ps)"
    by (cases "red_parts parts 0 (- 1) []")
  with red_parts_concat [of parts 0 "- 1" "[]"] have ps: "ps = filter (\<lambda>t. t \<noteq> []) ?red"
    by simp
  have "concat ps = concat ?red" unfolding ps by (rule concat_filter_nonempty)
  moreover have "ps = [] \<Longrightarrow> concat ?red = []"
    using \<open>concat ps = concat ?red\<close> by simp
  ultimately show ?thesis
    using assms r by (auto simp: extract_red_from_cell_with_position_def)
qed

lemma first_lower_base_bound:
  "first_lower_base s i = Some p \<Longrightarrow> i \<le> p \<and> p - i < length s"
proof (induction s arbitrary: i)
  case Nil
  then show ?case by simp
next
  case (Cons c cs)
  show ?case
  proof (cases "islower_char c \<and> is_base (upper_char c)")
    case True
    with Cons.prems show ?thesis by simp
  next
    case False
    then have f: "(islower_char c \<and> is_base (upper_char c)) = False" by simp
    from Cons.prems have "first_lower_base cs (Suc i) = Some p"
      by (simp add: f)
    from Cons.IH [OF this] show ?thesis by (simp; arith)
  qed
qed

lemma lowercase_window_long:
  assumes "first_lower_base s 0 = Some p" and "20 \<le> length s"
  defines "start \<equiv> (if p - 10 + 20 \<le> length s then p - 10 else length s - 20)"
  shows "lowercase_window s = (take 20 (drop start s), int start, int start + 20)"
    and "start \<le> p" and "p < start + 20" and "length (take 20 (drop start s)) = 20"
proof -
  from first_lower_base_bound [OF assms(1)] have p: "p < length s" by simp
  from assms(2) have ne: "s \<noteq> []" by auto
  have m: "max 0 (int p - 10) = int (p - 10)" by simp
  show "lowercase_window s = (take 20 (drop start s), int start, int start + 20)"
  proof (cases "p - 10 + 20 \<le> length s")
    case True
    then have st: "start = p - 10" by (simp add: start_def)
    have "py_slice s (int (p - 10)) (int (p - 10 + 20)) = take (p - 10 + 20 - (p - 10)) (drop (p - 10) s)"
      using True by (intro py_slice_take_drop) simp_all
    then have sl: "py_slice s (int (p - 10)) (int (p - 10) + 20) = take 20 (drop (p - 10) s)"
      by simp
    have c: "\<not> int (p - 10) + 20 > int (length s)" using True by simp
    show ?thesis
      unfolding st using ne assms(1) c
      by (simp add: lowercase_window_def Let_def m sl)
  next
    case False
    then have st: "start = length s - 20" by (simp add: start_def)
    have "py_slice s (int (length s - 20)) (int (length s))
            = take (length s - (length s - 20)) (drop (length s - 20) s)"
      by (intro py_slice_take_drop) simp_all
    then have sl: "py_slice s (int (length s - 20)) (int (length s)) = take 20 (drop (length s - 20) s)"
      using assms(2) by simp
    have m2: "max 0 (int (length s) - 20) = int (length s - 20)" using assms(2) by simp
    have c: "int (p - 10) + 20 > int (length s)" using False by simp
    have e: "int (length s - 20) + 20 = int (length s)" using assms(2) by simp
    show ?thesis
      unfolding st using ne assms(1) c
      by (simp add: lowercase_window_def Let_def m m2 sl e)
  qed
  show "start \<le> p" using p assms(2) by (simp add: start_def; linarith)
  show "p < start + 20" using p assms(2) by (simp add: start_def; linarith)
  show "length (take 20 (drop start s)) = 20" using p assms(2) by (simp add: start_def; linarith)
qed

lemma sequence_field_long: "sequence_field row_data i = [] \<or> 20 < length (sequence_field row_data i)"
proof (cases "col_str row_data i")
  case None
  then show ?thesis by (simp add: sequence_field_def)
next
  case (Some s)
  have "length (filter (\<lambda>c. is_base (upper_char c)) s) \<le> length s" by simp
  then have "20 < length (filter (\<lambda>c. is_base (upper_char c)) s) \<Longrightarrow> 20 < length s"
    by linarith
  with Some show ?thesis by (simp add: sequence_field_def)
qed

lemma full_sequence_choice:
  "full_sequence (parse_data_row row_data i gid gref hl col cells) = sequence_field row_data 7
   \<or> full_sequence (parse_data_row row_data i gid gref hl col cells) = sequence_field row_data 8"
  by (simp add: parse_data_row_def Let_def)

lemma full_sequence_long:
  "full_sequence (parse_data_row row_data i gid gref hl col cells) = []
   \<or> 20 < length (full_sequence (parse_data_row row_data i gid gref hl col cells))"
  using sequence_field_long [of row_data 7] sequence_field_long [of row_data 8]
    full_sequence_choice [of row_data i gid gref hl col cells]
  by metis

text \<open>
  C6, as the code has it. The red text of the H cell is returned when there is some, else
  that of the I cell; the red text of a rich cell is the concatenation of its red runs, in
  order and of whatever length. Only when neither cell gives red text is the second method
  used: when the sequence has a lowercase base at offset \<open>p\<close> and at least 20 characters,
  the result is the window of 20 characters that starts 10 characters before \<open>p\<close>
  (at 0 when \<open>p < 10\<close>), moved back to end with the sequence when it would run over
  its end; the window contains offset \<open>p\<close>. Without a lowercase base the result is
  empty. The sequence of a parsed row is empty or longer than 20 characters.
\<close>

theorem red_window_extraction:
  "(red_of_column row 7 = Some found \<longrightarrow> extract_red_bases_from_sequence s row = found)
   \<and> (red_of_column row 7 = None \<and> red_of_column row 8 = Some found \<longrightarrow>
        extract_red_bases_from_sequence s row = found)
   \<and> (cvalue c = VRich parts \<longrightarrow>
        fst (extract_red_from_cell_with_position c)
          = concat (map fst (filter (\<lambda>(t, col). case col of
                                                   None \<Rightarrow> False
                                                 | Some rgb \<Rightarrow> rgb \<noteq> [] \<and> is_red_color rgb)
                               parts)))
   \<and> (red_of_column row 7 = None \<and> red_of_column row 8 = None
        \<and> first_lower_base s 0 = Some p \<and> 20 \<le> length s \<longrightarrow>
        (let start = (if p - 10 + 20 \<le> length s then p - 10 else length s - 20)
         in extract_red_bases_from_sequence s row
              = (take 20 (drop start s), int start, int start + 20)
            \<and> length (take 20 (drop start s)) = 20
            \<and> start \<le> p \<and> p < start + 20))
   \<and> (red_of_column row 7 = None \<and> red_of_column row 8 = None
        \<and> first_lower_base s 0 = None \<longrightarrow>
        extract_red_bases_from_sequence s row = ('''', - 1, - 1))
   \<and> (full_sequence (parse_data_row row_data i gid gref hl col cells) = []
        \<or> 20 < length (full_sequence (parse_data_row row_data i gid gref hl col cells)))"
proof -
  have primary: "red_of_column row 7 = Some found \<longrightarrow> extract_red_bases_from_sequence s row = found"
    by (simp add: extract_red_bases_from_sequence_def)
  have second: "red_of_column row 7 = None \<and> red_of_column row 8 = Some found \<longrightarrow>
        extract_red_bases_from_sequence s row = found"
    by (simp add: extract_red_bases_from_sequence_def)
  have rich: "cvalue c = VRich parts \<longrightarrow>
        fst (extract_red_from_cell_with_position c)
          = concat (map fst (filter (\<lambda>(t, col). case col of
                                                   None \<Rightarrow> False
                                                 | Some rgb \<Rightarrow> rgb \<noteq> [] \<and> is_red_color rgb)
                               parts))"
    using rich_red_text [of c parts] by blast
  have fallback: "red_of_column row 7 = None \<and> red_of_column row 8 = None
        \<and> first_lower_base s 0 = Some p \<and> 20 \<le> length s \<longrightarrow>
        (let start = (if p - 10 + 20 \<le> length s then p - 10 else length s - 20)
         in extract_red_bases_from_sequence s row
              = (take 20 (drop start s), int start, int start + 20)
            \<and> length (take 20 (drop start s)) = 20
            \<and> start \<le> p \<and> p < start + 20)"
  proof (intro impI)
    assume a: "red_of_column row 7 = None \<and> red_of_column row 8 = None
        \<and> first_lower_base s 0 = Some p \<and> 20 \<le> length s"
    then have e: "extract_red_bases_from_sequence s row = lowercase_window s"
      by (simp add: extract_red_bases_from_sequence_def)
    from a have f: "first_lower_base s 0 = Some p" and l: "20 \<le> length s" by simp_all
    show "let start = (if p - 10 + 20 \<le> length s then p - 10 else length s - 20)
         in extract_red_bases_from_sequence s row
              = (take 20 (drop start s), int start, int start + 20)
            \<and> length (take 20 (drop start s)) = 20
            \<and> start \<le> p \<and> p < start + 20"
      unfolding Let_def e
      using lowercase_window_long [OF f l] by blast
  qed
  have none: "red_of_column row 7 = None \<and> red_of_column row 8 = None
        \<and> first_lower_base s 0 = None \<longrightarrow>
        extract_red_bases_from_sequence s row = ('''', - 1, - 1)"
    by (simp add: extract_red_bases_from_sequence_def lowercase_window_def)
  from primary second rich fallback none
    full_sequence_long [of row_data i gid gref hl col cells]
  show ?thesis by blast
qed

theorem red_window_extraction_witness:
  "red_of_column yellow_snp_row 7 = None \<and> red_of_column yellow_snp_row 8 = None
   \<and> first_lower_base candidate_t 0 = Some 10 \<and> 20 \<le> length candidate_t
   \<and> extract_red_bases_from_sequence candidate_t yellow_snp_row
       = (''AAAATGGAGAtACTAGAGGG'', 0, 20)"
proof -
  have h: "red_of_column yellow_snp_row 7 = None" by code_simp
  have i: "red_of_column yellow_snp_row 8 = None" by code_simp
  have f: "first_lower_base candidate_t 0 = Some 10" by code_simp
  have l: "20 \<le> length candidate_t" by (simp add: candidate_t_def)
  have t: "take 20 candidate_t = ''AAAATGGAGAtACTAGAGGG''" by (simp add: candidate_t_def)
  from red_window_extraction [of yellow_snp_row _ candidate_t _ _ 10,
      THEN conjunct2, THEN conjunct2, THEN conjunct2, THEN conjunct1] h i f l
  have "extract_red_bases_from_sequence candidate_t yellow_snp_row
       = (take 20 (drop 0 candidate_t), 0, 20)"
    by (simp add: Let_def)
  with h i f l t show ?thesis by simp
qed

text \<open>
  C6 as the spec words it fails: the last row of the sheet has three red letters in its
  sequence cell, and they are what the simplifier reports as its red bases.
\<close>

theorem red_window_length_counterexample:
  "map (\<lambda>r. (row_type r, red_20_bases r, length (red_20_bases r)))
     (simplify_sheet highlighted_group_sheet)
   = [(''WT'', ''-'', 1), (''WT'', ''-'', 1), (''SNP'', ''-'', 1), (''SNP'', ''tAC'', 3)]"
  by code_simp

section \<open>Properties of the ingestion\<close>

lemma parse_row_header:
  assumes "opens_group row"
  shows "parse_row gs i row =
           gs @ [\<lparr>seq_id = first_cell_text (map cvalue row),
                   ref_name = snd (the (match_sequence (first_cell_text (map cvalue row)))),
                   all_entries = []\<rparr>]"
proof -
  from assms have ne: "\<not> all_empty (map cvalue row)"
    and "match_sequence (first_cell_text (map cvalue row)) \<noteq> None"
    by (simp_all add: opens_group_def)
  then obtain ds name where m: "match_sequence (first_cell_text (map cvalue row)) = Some (ds, name)"
    by (cases "match_sequence (first_cell_text (map cvalue row))") auto
  show ?thesis
    using ne by (simp add: parse_row_def Let_def m)
qed

lemma parse_row_data:
  assumes "\<not> opens_group row"
  shows "map seq_id (parse_row gs i row) = map seq_id gs"
    and "butlast (parse_row gs i row) = butlast gs"
proof -
  have "parse_row gs i row = gs
      \<or> (gs \<noteq> [] \<and> (\<exists>es. parse_row gs i row = butlast gs @ [(last gs)\<lparr>all_entries := es\<rparr>]))"
  proof (cases "all_empty (map cvalue row)")
    case True
    then show ?thesis by (simp add: parse_row_def)
  next
    case False
    with assms have m: "match_sequence (first_cell_text (map cvalue row)) = None"
      unfolding opens_group_def by blast
    show ?thesis
      using False by (simp add: parse_row_def Let_def m) blast
  qed
  then show "map seq_id (parse_row gs i row) = map seq_id gs"
    and "butlast (parse_row gs i row) = butlast gs"
  proof -
    assume c: "parse_row gs i row = gs
      \<or> (gs \<noteq> [] \<and> (\<exists>es. parse_row gs i row = butlast gs @ [(last gs)\<lparr>all_entries := es\<rparr>]))"
    have ids: "gs \<noteq> [] \<Longrightarrow> map seq_id (butlast gs @ [(last gs)\<lparr>all_entries := es\<rparr>]) = map seq_id gs"
      for es
    proof -
      assume "gs \<noteq> []"
      then have "map seq_id gs = map seq_id (butlast gs @ [last gs])" by simp
      then show ?thesis by simp
    qed
    from c ids show "map seq_id (parse_row gs i row) = map seq_id gs" by auto
    from c show "butlast (parse_row gs i row) = butlast gs" by auto
  qed
qed

lemma parse_rows_ids:
  "map seq_id (parse_rows gs i rows)
     = map seq_id gs @ map (\<lambda>r. first_cell_text (map cvalue r)) (filter opens_group rows)"
proof (induction rows arbitrary: gs i)
  case Nil
  show ?case by simp
next
  case (Cons row rows)
  show ?case
  proof (cases "opens_group row")
    case True
    then show ?thesis
      by (simp add: Cons.IH parse_row_header)
  next
    case False
    then show ?thesis
      by (simp add: Cons.IH parse_row_data(1))
  qed
qed

lemma simplify_group_ids:
  "map sequence_id_s (simplify_group [] g) = replicate (length (simplify_group [] g)) (seq_id g)"
  by (simp add: simplify_group_eq [of "[]"] comp_def map_replicate_const replicate_add)

text \<open>
  C7. A row that opens a group (it is not empty and its first cell matches the identifier
  pattern) appends a new group to the list, whatever groups the list has already, also
  one with the same identifier. Any other row leaves the identifiers of the list as they
  are and touches at most its last group. So the identifiers of the groups are the
  identifiers of the header rows, one group per header row, in file order; and the rows
  of the simplified output follow the order of the groups. In the sheet whose first
  identifier comes back after another group, the two occurrences give two groups, each
  with the one row that follows its header.
\<close>

theorem groups_follow_headers:
  "(opens_group row \<longrightarrow>
      parse_row gs i row =
        gs @ [\<lparr>seq_id = first_cell_text (map cvalue row),
                ref_name = snd (the (match_sequence (first_cell_text (map cvalue row)))),
                all_entries = []\<rparr>])
   \<and> (\<not> opens_group row \<longrightarrow>
        map seq_id (parse_row gs i row) = map seq_id gs
        \<and> butlast (parse_row gs i row) = butlast gs)
   \<and> map seq_id (parse_source_file rows)
       = map (\<lambda>r. first_cell_text (map cvalue r)) (filter opens_group rows)
   \<and> map sequence_id_s (simplify_data groups)
       = concat (map (\<lambda>g. replicate (length (simplify_group [] g)) (seq_id g)) groups)
   \<and> map (\<lambda>g. (seq_id g, map row_number (all_entries g))) (parse_source_file repeated_id_sheet)
       = [(''045-refGmACC1HiTom'', [2]), (''046-refGmACC2HiTom'', [4]),
          (''045-refGmACC1HiTom'', [6])]"
proof -
  have ids: "map seq_id (parse_source_file rows)
       = map (\<lambda>r. first_cell_text (map cvalue r)) (filter opens_group rows)"
    by (simp add: parse_source_file_def parse_rows_ids)
  have out: "map sequence_id_s (simplify_data groups)
       = concat (map (\<lambda>g. replicate (length (simplify_group [] g)) (seq_id g)) groups)"
    by (simp add: simplify_data_concat map_concat comp_def simplify_group_ids [symmetric])
  have ex: "map (\<lambda>g. (seq_id g, map row_number (all_entries g))) (parse_source_file repeated_id_sheet)
       = [(''045-refGmACC1HiTom'', [2]), (''046-refGmACC2HiTom'', [4]),
          (''045-refGmACC1HiTom'', [6])]"
    by code_simp
  from parse_row_header [of row gs i] parse_row_data [of row gs i] ids out ex
  show ?thesis by blast
qed

theorem groups_follow_headers_witness:
  "opens_group header_row
   \<and> map seq_id (parse_source_file [header_row, wt_row]) = [''045-refGmACC1HiTom'']
   \<and> map seq_id (parse_row (parse_source_file [header_row, wt_row]) 3 header_row)
       = [''045-refGmACC1HiTom'', ''045-refGmACC1HiTom'']"
proof -
  have h: "opens_group header_row" by code_simp
  have g: "map seq_id (parse_source_file [header_row, wt_row]) = [''045-refGmACC1HiTom'']"
    by code_simp
  have f: "first_cell_text (map cvalue header_row) = ''045-refGmACC1HiTom''" by code_simp
  from groups_follow_headers [of header_row "parse_source_file [header_row, wt_row]" 3,
      THEN conjunct1] h
  have "parse_row (parse_source_file [header_row, wt_row]) 3 header_row =
        parse_source_file [header_row, wt_row]
        @ [\<lparr>seq_id = first_cell_text (map cvalue header_row),
             ref_name = snd (the (match_sequence (first_cell_text (map cvalue header_row)))),
             all_entries = []\<rparr>]"
    by simp
  then have "map seq_id (parse_row (parse_source_file [header_row, wt_row]) 3 header_row)
       = [''045-refGmACC1HiTom'', ''045-refGmACC1HiTom'']"
    by (simp add: g f)
  with h g show ?thesis by simp
qed

section \<open>Properties of the renumberer\<close>

lemma number_groups_cons:
  "number_groups ((row_idx, orig_num, name) # rest) c p =
     (let n = (if Some orig_num \<noteq> p then c + 1 else c)
      in ((row_idx, n, name) # fst (number_groups rest n (Some orig_num)),
          snd (number_groups rest n (Some orig_num))))"
  by (auto simp: Let_def split: prod.splits)

lemma number_groups_rows_names:
  "map (\<lambda>(row_idx, n, name). (row_idx, name)) (fst (number_groups hs c p))
     = map (\<lambda>(row_idx, orig_num, name). (row_idx, name)) hs"
proof (induction hs arbitrary: c p)
  case Nil
  show ?case by simp
next
  case (Cons h hs)
  obtain row_idx orig_num name where h: "h = (row_idx, orig_num, name)" by (cases h)
  show ?case unfolding h number_groups_cons Let_def by (simp add: Cons.IH)
qed

lemma number_groups_length: "length (fst (number_groups hs c p)) = length hs"
  using arg_cong [OF number_groups_rows_names [of hs c p], of length] by simp

lemma number_groups_first:
  assumes "hs \<noteq> []"
  shows "map (\<lambda>(row_idx, n, name). n) (fst (number_groups hs c p)) ! 0
         = (if Some (map (\<lambda>(row_idx, orig_num, name). orig_num) hs ! 0) \<noteq> p then c + 1 else c)"
proof -
  from assms obtain row_idx orig_num name rest where h: "hs = (row_idx, orig_num, name) # rest"
    by (cases hs) auto
  show ?thesis unfolding h number_groups_cons Let_def by simp
qed

lemma number_groups_step:
  assumes "Suc k < length hs"
  shows "map (\<lambda>(row_idx, n, name). n) (fst (number_groups hs c p)) ! Suc k
         = (if map (\<lambda>(row_idx, orig_num, name). orig_num) hs ! Suc k
               \<noteq> map (\<lambda>(row_idx, orig_num, name). orig_num) hs ! k
            then map (\<lambda>(row_idx, n, name). n) (fst (number_groups hs c p)) ! k + 1
            else map (\<lambda>(row_idx, n, name). n) (fst (number_groups hs c p)) ! k)"
  using assms
proof (induction hs arbitrary: k c p)
  case Nil
  then show ?case by simp
next
  case (Cons h rest)
  obtain row_idx orig_num name where h: "h = (row_idx, orig_num, name)" by (cases h)
  let ?n = "if Some orig_num \<noteq> p then c + 1 else c"
  from Cons.prems have ne: "rest \<noteq> []" by auto
  show ?case
  proof (cases k)
    case 0
    show ?thesis
      unfolding h number_groups_cons Let_def 0
      using number_groups_first [OF ne, of ?n "Some orig_num"] by simp
  next
    case (Suc j)
    with Cons.prems have "Suc j < length rest" by simp
    from Cons.IH [OF this, of ?n "Some orig_num"] show ?thesis
      unfolding h number_groups_cons Let_def Suc by simp
  qed
qed

lemma number_groups_total:
  "snd (number_groups hs c p)
     = (if hs = [] then c else last (map (\<lambda>(row_idx, n, name). n) (fst (number_groups hs c p))))"
proof (induction hs arbitrary: c p)
  case Nil
  show ?case by simp
next
  case (Cons h rest)
  obtain row_idx orig_num name where h: "h = (row_idx, orig_num, name)" by (cases h)
  let ?n = "if Some orig_num \<noteq> p then c + 1 else c"
  show ?case
  proof (cases "rest = []")
    case True
    then show ?thesis unfolding h number_groups_cons Let_def by simp
  next
    case False
    with number_groups_length [of rest ?n "Some orig_num"]
    have ne: "fst (number_groups rest ?n (Some orig_num)) \<noteq> []" by auto
    from Cons.IH [of ?n "Some orig_num"] False
    have "snd (number_groups rest ?n (Some orig_num))
          = last (map (\<lambda>(row_idx, n, name). n) (fst (number_groups rest ?n (Some orig_num))))"
      by simp
    with ne show ?thesis unfolding h number_groups_cons Let_def by simp
  qed
qed

text \<open>Numbers that go up by one where the token changes, and stay where it does not.\<close>

lemma run_monotone:
  fixes ns :: "nat list" and ts :: "'a list"
  assumes "\<forall>k. Suc k < n \<longrightarrow> ns ! Suc k = (if ts ! Suc k \<noteq> ts ! k then ns ! k + 1 else ns ! k)"
    and "i \<le> j" and "j < n"
  shows "ns ! i \<le> ns ! j"
  using assms(2,3)
proof (induction j)
  case 0
  then show ?case by simp
next
  case (Suc j)
  show ?case
  proof (cases "i = Suc j")
    case True
    then show ?thesis by simp
  next
    case False
    with Suc.prems have "i \<le> j" "j < n" by simp_all
    from Suc.IH [OF this] assms(1) Suc.prems(2) show ?thesis
      by (metis le_add1 le_trans order_refl)
  qed
qed

lemma run_same_number:
  fixes ns :: "nat list" and ts :: "'a list"
  assumes "\<forall>k. Suc k < n \<longrightarrow> ns ! Suc k = (if ts ! Suc k \<noteq> ts ! k then ns ! k + 1 else ns ! k)"
    and "i \<le> j" and "j < n" and "ns ! i = ns ! j"
  shows "ts ! i = ts ! j"
  using assms(2,3,4)
proof (induction j)
  case 0
  then show ?case by simp
next
  case (Suc j)
  show ?case
  proof (cases "i = Suc j")
    case True
    then show ?thesis by simp
  next
    case False
    with Suc.prems have ij: "i \<le> j" "j < n" by simp_all
    have a: "ns ! i \<le> ns ! j" using assms(1) ij by (rule run_monotone)
    have b: "ns ! j \<le> ns ! Suc j"
      using assms(1) Suc.prems(2) by (rule run_monotone [where i = j and j = "Suc j", OF _ le_SucI [OF order_refl]])
    from a b Suc.prems(3) have e: "ns ! i = ns ! j" "ns ! Suc j = ns ! j" by simp_all
    from assms(1) Suc.prems(2) e(2) have "ts ! Suc j = ts ! j"
      by (metis Suc_n_not_le_n le_add1 add.commute plus_1_eq_Suc)
    with Suc.IH [OF ij e(1)] show ?thesis by simp
  qed
qed

lemma run_between:
  fixes ns :: "nat list" and ts :: "'a list"
  assumes "\<forall>k. Suc k < n \<longrightarrow> ns ! Suc k = (if ts ! Suc k \<noteq> ts ! k then ns ! k + 1 else ns ! k)"
    and "i \<le> k" and "k \<le> j" and "j < n" and "ns ! i = ns ! j"
  shows "ns ! k = ns ! i \<and> ts ! k = ts ! i"
proof -
  from assms(3,4) have kn: "k < n" by simp
  have a: "ns ! i \<le> ns ! k" using assms(1,2) kn by (rule run_monotone)
  have b: "ns ! k \<le> ns ! j" using assms(1,3,4) by (rule run_monotone)
  from a b assms(5) have e: "ns ! i = ns ! k" by simp
  from run_same_number [OF assms(1,2) kn e] e show ?thesis by simp
qed

lemma run_reappearance:
  fixes ns :: "nat list" and ts :: "'a list"
  assumes "\<forall>k. Suc k < n \<longrightarrow> ns ! Suc k = (if ts ! Suc k \<noteq> ts ! k then ns ! k + 1 else ns ! k)"
    and "i < k" and "k < j" and "j < n" and "ts ! k \<noteq> ts ! i"
  shows "ns ! i < ns ! j"
proof (rule ccontr)
  assume "\<not> ns ! i < ns ! j"
  moreover have "ns ! i \<le> ns ! j"
    using assms(1) _ assms(4) by (rule run_monotone) (use assms(2,3) in simp)
  ultimately have "ns ! i = ns ! j" by simp
  from run_between [OF assms(1) _ _ assms(4) this, of k] assms(2,3,5) show False by simp
qed

subsection \<open>The header rows and the copy\<close>

lemma sequence_id_rows_enumerate:
  assumes "list_all (\<lambda>row. row \<noteq> []) rows"
  shows "sequence_id_rows i rows =
           Inr (map (\<lambda>(row_idx, row). (row_idx, the (header_match (hd row))))
                  (filter (\<lambda>(row_idx, row). header_match (hd row) \<noteq> None) (enumerate i rows)))"
  using assms
proof (induction rows arbitrary: i)
  case Nil
  show ?case by simp
next
  case (Cons row rows)
  then obtain c cs where r: "row = c # cs" by (cases row) auto
  from Cons.prems have "list_all (\<lambda>row. row \<noteq> []) rows" by simp
  from Cons.IH [OF this, of "Suc i"] show ?case
    unfolding r by (simp split: option.splits)
qed

lemma header_rows_distinct:
  "distinct (map fst (map (\<lambda>(row_idx, row). (row_idx, the (header_match (hd row))))
                  (filter (\<lambda>(row_idx, row). header_match (hd row) \<noteq> None) (enumerate i rows))))"
proof -
  have "map fst (map (\<lambda>(row_idx, row). (row_idx, the (header_match (hd row))))
                  (filter (\<lambda>(row_idx, row). header_match (hd row) \<noteq> None) (enumerate i rows)))
        = map fst (filter (\<lambda>(row_idx, row). header_match (hd row) \<noteq> None) (enumerate i rows))"
    by (simp add: comp_def case_prod_unfold)
  moreover have "distinct (map fst (filter (\<lambda>(row_idx, row). header_match (hd row) \<noteq> None)
                                      (enumerate i rows)))"
    by (rule distinct_map_filter) simp
  ultimately show ?thesis by (simp only:)
qed

lemma copy_rows_enumerate:
  "copy_rows new_ids i rows = map (\<lambda>(row_idx, row). copy_row new_ids row_idx row) (enumerate i rows)"
  by (induction rows arbitrary: i) simp_all

lemma copy_row_nonempty:
  assumes "row \<noteq> []"
  shows "copy_row new_ids i row =
           (case map_of new_ids i of
              Some new_id \<Rightarrow> (hd row)\<lparr>cvalue := VStr new_id\<rparr> # tl row
            | None \<Rightarrow> row)"
  using assms by (cases row) (simp_all add: copy_row_def split: option.splits)

lemma copy_rows_nonempty:
  assumes "list_all (\<lambda>row. row \<noteq> []) rows"
  shows "copy_rows new_ids i rows =
           map (\<lambda>(row_idx, row). case map_of new_ids row_idx of
                                    Some new_id \<Rightarrow> (hd row)\<lparr>cvalue := VStr new_id\<rparr> # tl row
                                  | None \<Rightarrow> row)
             (enumerate i rows)"
  using assms
  by (induction rows arbitrary: i) (simp_all add: copy_row_nonempty)

lemma new_ids_lookup:
  assumes "distinct (map fst hs)" and "k < length hs"
  shows "map_of (row_to_new_seq (fst (number_groups hs c p))) (fst (hs ! k))
         = Some (new_sequence_id
                   (map (\<lambda>(row_idx, n, name). n) (fst (number_groups hs c p)) ! k)
                   (snd (snd (hs ! k))))"
proof -
  let ?nb = "fst (number_groups hs c p)"
  have len: "length ?nb = length hs" by (rule number_groups_length)
  have rn: "map (\<lambda>(row_idx, n, name). (row_idx, name)) ?nb
            = map (\<lambda>(row_idx, orig_num, name). (row_idx, name)) hs"
    by (rule number_groups_rows_names)
  from arg_cong [OF rn, of "\<lambda>xs. xs ! k"] assms(2) len
  have k: "(\<lambda>(row_idx, n, name). (row_idx, name)) (?nb ! k)
           = (\<lambda>(row_idx, orig_num, name). (row_idx, name)) (hs ! k)"
    by simp
  have keys: "map fst (row_to_new_seq ?nb) = map fst hs"
  proof -
    have "map fst (row_to_new_seq ?nb) = map fst (map (\<lambda>(row_idx, n, name). (row_idx, name)) ?nb)"
      by (simp add: row_to_new_seq_def comp_def case_prod_unfold)
    also have "\<dots> = map fst (map (\<lambda>(row_idx, orig_num, name). (row_idx, name)) hs)"
      by (simp only: rn)
    also have "\<dots> = map fst hs" by (simp add: comp_def case_prod_unfold)
    finally show ?thesis .
  qed
  have d: "distinct (map fst (row_to_new_seq ?nb))" using assms(1) by (simp only: keys)
  have "row_to_new_seq ?nb ! k
        = (fst (hs ! k), new_sequence_id (map (\<lambda>(row_idx, n, name). n) ?nb ! k) (snd (snd (hs ! k))))"
    using k assms(2) len by (simp add: row_to_new_seq_def case_prod_unfold)
  moreover have "k < length (row_to_new_seq ?nb)" using assms(2) len by (simp add: row_to_new_seq_def)
  ultimately have "(fst (hs ! k), new_sequence_id (map (\<lambda>(row_idx, n, name). n) ?nb ! k) (snd (snd (hs ! k))))
                   \<in> set (row_to_new_seq ?nb)"
    by (metis nth_mem)
  with d show ?thesis by (simp add: map_of_eq_Some_iff)
qed

lemma new_ids_no_lookup:
  assumes "idx \<notin> fst ` set hs"
  shows "map_of (row_to_new_seq (fst (number_groups hs c p))) idx = None"
proof -
  let ?nb = "fst (number_groups hs c p)"
  have rn: "map (\<lambda>(row_idx, n, name). (row_idx, name)) ?nb
            = map (\<lambda>(row_idx, orig_num, name). (row_idx, name)) hs"
    by (rule number_groups_rows_names)
  have "map fst (row_to_new_seq ?nb) = map fst (map (\<lambda>(row_idx, n, name). (row_idx, name)) ?nb)"
    by (simp add: row_to_new_seq_def comp_def case_prod_unfold)
  also have "\<dots> = map fst (map (\<lambda>(row_idx, orig_num, name). (row_idx, name)) hs)"
    by (simp only: rn)
  also have "\<dots> = map fst hs" by (simp add: comp_def case_prod_unfold)
  finally have "fst ` set (row_to_new_seq ?nb) = fst ` set hs"
    by (metis set_map)
  with assms show ?thesis by (simp add: map_of_eq_None_iff)
qed

lemma sequence_id_rows_nonempty:
  "sequence_id_rows i rows = Inr hs \<Longrightarrow> list_all (\<lambda>row. row \<noteq> []) rows"
proof (induction i rows arbitrary: hs rule: sequence_id_rows.induct)
  case (1 row_idx)
  show ?case by simp
next
  case (2 row_idx rows)
  then show ?case by simp
next
  case (3 row_idx c cs rows)
  from "3.prems" obtain rest where "sequence_id_rows (Suc row_idx) rows = Inr rest"
    by (cases "sequence_id_rows (Suc row_idx) rows") simp_all
  from "3.IH" [OF this] show ?case by simp
qed

subsection \<open>What the copy keeps\<close>

lemma load_cell_style:
  "fill_rgb (load_cell c) = fill_rgb c" "font_rgb (load_cell c) = font_rgb c"
  "style (load_cell c) = style c"
  by (simp_all add: load_cell_def)

lemma load_cell_plain:
  assumes "\<forall>parts. cvalue c \<noteq> VRich parts"
  shows "load_cell c = c"
  using assms by (cases "cvalue c") (simp_all add: load_cell_def load_value_def)

lemma load_cell_rich:
  assumes "cvalue c = VRich parts"
  shows "cvalue (load_cell c) = VStr (concat (map fst parts))"
  using assms by (simp add: load_cell_def load_value_def)

lemma load_workbook_plain_nonempty:
  "list_all (\<lambda>row. row \<noteq> []) (load_workbook_plain rows) = list_all (\<lambda>row. row \<noteq> []) rows"
  by (induction rows) (simp_all add: load_workbook_plain_def)

lemma load_workbook_plain_styles:
  "map (map (\<lambda>c. (fill_rgb c, font_rgb c, style c))) (load_workbook_plain rows)
     = map (map (\<lambda>c. (fill_rgb c, font_rgb c, style c))) rows"
  by (simp add: load_workbook_plain_def comp_def load_cell_style)

lemma copy_row_styles:
  "map (\<lambda>c. (fill_rgb c, font_rgb c, style c)) (copy_row new_ids i row)
     = map (\<lambda>c. (fill_rgb c, font_rgb c, style c)) row"
  by (cases row) (simp_all add: copy_row_def split: option.splits)

lemma copy_rows_styles:
  "map (map (\<lambda>c. (fill_rgb c, font_rgb c, style c))) (copy_rows new_ids i rows)
     = map (map (\<lambda>c. (fill_rgb c, font_rgb c, style c))) rows"
  by (induction rows arbitrary: i) (simp_all add: copy_row_styles)

lemma copy_rows_nth:
  "r < length rows \<Longrightarrow> copy_rows new_ids i rows ! r = copy_row new_ids (i + r) (rows ! r)"
proof (induction rows arbitrary: i r)
  case Nil
  then show ?case by simp
next
  case (Cons row rows)
  show ?case
  proof (cases r)
    case 0
    then show ?thesis by simp
  next
    case (Suc q)
    with Cons.prems have "q < length rows" by simp
    from Cons.IH [OF this, of "Suc i"] show ?thesis by (simp add: Suc)
  qed
qed

lemma copy_row_nth:
  assumes "c < length row"
  shows "copy_row new_ids i row ! c =
           (if c = 0 then (case map_of new_ids i of
                             Some new_id \<Rightarrow> (row ! 0)\<lparr>cvalue := VStr new_id\<rparr>
                           | None \<Rightarrow> row ! 0)
            else row ! c)"
proof (cases row)
  case Nil
  with assms show ?thesis by simp
next
  case (Cons x xs)
  show ?thesis
  proof (cases c)
    case 0
    then show ?thesis by (simp add: copy_row_def Cons split: option.splits)
  next
    case (Suc d)
    then show ?thesis by (simp add: copy_row_def Cons)
  qed
qed

text \<open>
  The copy works on the loaded sheet: the sequence cell of this row is rich text with a red
  run in the file, and in the saved sheet it is the plain text of its runs.
\<close>

lemma rich_text_is_saved_plain:
  "map cvalue (green_snp_row) ! 7
     = VRich [(''AAAATGGAGA'', None), (''tAC'', Some ''FFFF0000''), (''TAGAGGGATGGCCCC'', None)]
   \<and> map (map cvalue) (fst (projr (sort_gene_editing_file rich_renumber_sheet)))
       = [[VStr ''001-refA''],
          [VNone, VOther ''10'' True, VStr ''1%'', VStr ''SNP'', VStr ''SNP'', VStr ''C->T'',
           VStr ''C->T'', VStr ''AAAATGGAGAtACTAGAGGGATGGCCCC'', VStr wt_sequence]]"
  by code_simp

text \<open>
  C8, as the code has it. The sheet is loaded without rich text, so a rich-text value of the
  file is, in the loaded sheet, the plain text of its runs. On a loaded sheet all of whose
  rows have a cell, the header rows are the rows whose first cell matches the identifier
  pattern, and the token of a header is the run of digits of its identifier. The first
  header gets the number 1; every further header gets the number of the header before it,
  plus one exactly when its digits differ from that header's. Headers with the same number
  therefore form one unbroken run with the same digits, and a header that comes after a
  header with other digits has a greater number than every header before that one: a number
  is never used again. The sheet that is saved has the rows of the loaded sheet, each as it
  was loaded, but for the first cell of every header row, whose value is the zero-padded
  number, \<^verbatim>\<open>-ref\<close> and the name. Of the file, the saved sheet keeps the fill, the font
  colour and the style of every cell, and the value of every cell that is not rich text and
  is not the first cell of a header row. The report gives the last number and the number of
  header rows.
\<close>

theorem renumbering_by_runs:
  assumes "sequence_id_rows 1 (load_workbook_plain rows) = Inr headers"
  defines "tokens \<equiv> map (\<lambda>(row_idx, orig_num, name). orig_num) headers"
    and "numbered \<equiv> fst (number_groups headers 0 None)"
    and "ns \<equiv> map (\<lambda>(row_idx, n, name). n) (fst (number_groups headers 0 None))"
    and "saved \<equiv> fst (projr (sort_gene_editing_file rows))"
  shows "headers = map (\<lambda>(row_idx, row). (row_idx, the (header_match (hd row))))
                     (filter (\<lambda>(row_idx, row). header_match (hd row) \<noteq> None)
                        (enumerate 1 (load_workbook_plain rows)))
     \<and> sort_gene_editing_file rows =
         Inr (map (\<lambda>(row_idx, row). case map_of (row_to_new_seq numbered) row_idx of
                                       Some new_id \<Rightarrow> (hd row)\<lparr>cvalue := VStr new_id\<rparr> # tl row
                                     | None \<Rightarrow> row)
                (enumerate 1 (load_workbook_plain rows)),
              if headers = [] then 0 else last ns,
              length headers)
     \<and> length ns = length headers
     \<and> (headers \<noteq> [] \<longrightarrow> ns ! 0 = 1)
     \<and> (\<forall>k. Suc k < length headers \<longrightarrow>
            ns ! Suc k = (if tokens ! Suc k \<noteq> tokens ! k then ns ! k + 1 else ns ! k))
     \<and> (\<forall>i k j. i \<le> k \<and> k \<le> j \<and> j < length headers \<and> ns ! i = ns ! j \<longrightarrow>
            ns ! k = ns ! i \<and> tokens ! k = tokens ! i)
     \<and> (\<forall>i k j. i < k \<and> k < j \<and> j < length headers \<and> tokens ! k \<noteq> tokens ! i \<longrightarrow>
            ns ! i < ns ! j)
     \<and> (\<forall>k. k < length headers \<longrightarrow>
            map_of (row_to_new_seq numbered) (fst (headers ! k))
              = Some (new_sequence_id (ns ! k) (snd (snd (headers ! k)))))
     \<and> (\<forall>idx. idx \<notin> fst ` set headers \<longrightarrow> map_of (row_to_new_seq numbered) idx = None)
     \<and> (list_all (\<lambda>row. row \<noteq> []) sheet \<longrightarrow>
            (\<exists>hs. sequence_id_rows 1 (load_workbook_plain sheet) = Inr hs))
     \<and> map (map (\<lambda>c. (fill_rgb c, font_rgb c, style c))) saved
         = map (map (\<lambda>c. (fill_rgb c, font_rgb c, style c))) rows
     \<and> (\<forall>r c. r < length rows \<and> c < length (rows ! r)
              \<and> (\<forall>parts. cvalue (rows ! r ! c) \<noteq> VRich parts)
              \<and> (c = 0 \<longrightarrow> Suc r \<notin> fst ` set headers) \<longrightarrow>
            saved ! r ! c = rows ! r ! c)
     \<and> (\<forall>r c parts. r < length rows \<and> c < length (rows ! r)
              \<and> cvalue (rows ! r ! c) = VRich parts
              \<and> (c = 0 \<longrightarrow> Suc r \<notin> fst ` set headers) \<longrightarrow>
            cvalue (saved ! r ! c) = VStr (concat (map fst parts)))"
proof -
  let ?ws = "load_workbook_plain rows"
  from assms(1) have ne: "list_all (\<lambda>row. row \<noteq> []) ?ws"
    by (rule sequence_id_rows_nonempty)
  from sequence_id_rows_enumerate [OF ne, of 1] assms(1)
  have hs: "headers = map (\<lambda>(row_idx, row). (row_idx, the (header_match (hd row))))
                     (filter (\<lambda>(row_idx, row). header_match (hd row) \<noteq> None) (enumerate 1 ?ws))"
    by simp
  have d: "distinct (map fst headers)"
    unfolding hs by (rule header_rows_distinct)
  have len: "length ns = length headers"
    by (simp add: ns_def number_groups_length)
  have total: "snd (number_groups headers 0 None) = (if headers = [] then 0 else last ns)"
    unfolding ns_def by (rule number_groups_total)
  have raw: "sort_gene_editing_file rows =
         Inr (copy_rows (row_to_new_seq numbered) 1 ?ws, snd (number_groups headers 0 None),
              length headers)"
    unfolding sort_gene_editing_file_def Let_def assms(1) numbered_def
    by (simp add: case_prod_unfold)
  have out: "sort_gene_editing_file rows =
         Inr (map (\<lambda>(row_idx, row). case map_of (row_to_new_seq numbered) row_idx of
                                       Some new_id \<Rightarrow> (hd row)\<lparr>cvalue := VStr new_id\<rparr> # tl row
                                     | None \<Rightarrow> row)
                (enumerate 1 ?ws),
              if headers = [] then 0 else last ns,
              length headers)"
    unfolding raw total
    using copy_rows_nonempty [OF ne, of "row_to_new_seq numbered" 1]
    by (simp add: case_prod_unfold)
  have first: "headers \<noteq> [] \<longrightarrow> ns ! 0 = 1"
    using number_groups_first [of headers 0 None] by (simp add: ns_def)
  have step: "\<forall>k. Suc k < length headers \<longrightarrow>
            ns ! Suc k = (if tokens ! Suc k \<noteq> tokens ! k then ns ! k + 1 else ns ! k)"
    unfolding ns_def tokens_def using number_groups_step [of _ headers 0 None] by blast
  have between: "\<forall>i k j. i \<le> k \<and> k \<le> j \<and> j < length headers \<and> ns ! i = ns ! j \<longrightarrow>
            ns ! k = ns ! i \<and> tokens ! k = tokens ! i"
    using run_between [OF step] by blast
  have again: "\<forall>i k j. i < k \<and> k < j \<and> j < length headers \<and> tokens ! k \<noteq> tokens ! i \<longrightarrow>
            ns ! i < ns ! j"
    using run_reappearance [OF step] by blast
  have look: "\<forall>k. k < length headers \<longrightarrow>
            map_of (row_to_new_seq numbered) (fst (headers ! k))
              = Some (new_sequence_id (ns ! k) (snd (snd (headers ! k))))"
    unfolding numbered_def ns_def using new_ids_lookup [OF d, of _ 0 None] by blast
  have nolook: "\<forall>idx. idx \<notin> fst ` set headers \<longrightarrow> map_of (row_to_new_seq numbered) idx = None"
    unfolding numbered_def using new_ids_no_lookup [of _ headers 0 None] by blast
  have tot: "list_all (\<lambda>row. row \<noteq> []) sheet \<longrightarrow>
            (\<exists>hs. sequence_id_rows 1 (load_workbook_plain sheet) = Inr hs)"
    using sequence_id_rows_enumerate [of "load_workbook_plain sheet" 1]
    by (simp add: load_workbook_plain_nonempty)
  have sv: "saved = copy_rows (row_to_new_seq numbered) 1 ?ws"
    unfolding saved_def raw by simp
  have styles: "map (map (\<lambda>c. (fill_rgb c, font_rgb c, style c))) saved
         = map (map (\<lambda>c. (fill_rgb c, font_rgb c, style c))) rows"
    unfolding sv by (simp only: copy_rows_styles load_workbook_plain_styles)
  have cell: "saved ! r ! c = load_cell (rows ! r ! c)"
    if r: "r < length rows" and c: "c < length (rows ! r)"
      and h: "c = 0 \<longrightarrow> Suc r \<notin> fst ` set headers" for r c
  proof -
    from r have lr: "r < length ?ws" by (simp add: load_workbook_plain_def)
    from r have row: "?ws ! r = map load_cell (rows ! r)" by (simp add: load_workbook_plain_def)
    from c have lc: "c < length (?ws ! r)" by (simp add: row)
    have "saved ! r = copy_row (row_to_new_seq numbered) (1 + r) (?ws ! r)"
      unfolding sv by (rule copy_rows_nth [OF lr])
    then have "saved ! r ! c =
           (if c = 0 then (case map_of (row_to_new_seq numbered) (1 + r) of
                             Some new_id \<Rightarrow> (?ws ! r ! 0)\<lparr>cvalue := VStr new_id\<rparr>
                           | None \<Rightarrow> ?ws ! r ! 0)
            else ?ws ! r ! c)"
      by (simp only: copy_row_nth [OF lc])
    moreover have "map_of (row_to_new_seq numbered) (1 + r) = None" if "c = 0"
      using nolook h that by simp
    ultimately have "saved ! r ! c = ?ws ! r ! c" by (cases "c = 0") simp_all
    with c show ?thesis by (simp add: row)
  qed
  have plainv: "\<forall>r c. r < length rows \<and> c < length (rows ! r)
              \<and> (\<forall>parts. cvalue (rows ! r ! c) \<noteq> VRich parts)
              \<and> (c = 0 \<longrightarrow> Suc r \<notin> fst ` set headers) \<longrightarrow>
            saved ! r ! c = rows ! r ! c"
    using cell load_cell_plain by simp
  have richv: "\<forall>r c parts. r < length rows \<and> c < length (rows ! r)
              \<and> cvalue (rows ! r ! c) = VRich parts
              \<and> (c = 0 \<longrightarrow> Suc r \<notin> fst ` set headers) \<longrightarrow>
            cvalue (saved ! r ! c) = VStr (concat (map fst parts))"
    using cell load_cell_rich by simp
  from hs out len first step between again look nolook tot styles plainv richv show ?thesis
    by (intro conjI)
qed

theorem renumbering_by_runs_witness:
  "sequence_id_rows 1 (load_workbook_plain renumber_sheet)
     = Inr [(1, ''007'', ''A''), (3, ''007'', ''A''), (4, ''008'', ''B''), (5, ''009'', ''C''),
            (7, ''007'', ''A'')]
   \<and> map (\<lambda>(row_idx, n, name). n)
        (fst (number_groups [(1, ''007'', ''A''), (3, ''007'', ''A''), (4, ''008'', ''B''),
                             (5, ''009'', ''C''), (7, ''007'', ''A'')] 0 None))
       = [1, 1, 2, 3, 4]
   \<and> map (\<lambda>row. cvalue (hd row)) (fst (projr (sort_gene_editing_file renumber_sheet)))
       = [VStr ''001-refA'', VNone, VStr ''001-refA'', VStr ''002-refB'', VStr ''003-refC'',
          VNone, VStr ''004-refA'']
   \<and> snd (projr (sort_gene_editing_file renumber_sheet)) = (4, 5)
   \<and> fst (projr (sort_gene_editing_file renumber_sheet)) ! 6 ! 1 = filled ''FFFFFF00'' (VStr ''x'')"
proof -
  let ?hs = "[(1::nat, ''007'', ''A''), (3, ''007'', ''A''), (4, ''008'', ''B''),
              (5, ''009'', ''C''), (7, ''007'', ''A'')]"
  have h: "sequence_id_rows 1 (load_workbook_plain renumber_sheet) = Inr ?hs" by code_simp
  have n: "map (\<lambda>(row_idx, n, name). n) (fst (number_groups ?hs 0 None)) = [1, 1, 2, 3, 4]"
    by code_simp
  have ids: "row_to_new_seq (fst (number_groups ?hs 0 None))
             = [(1, ''001-refA''), (3, ''001-refA''), (4, ''002-refB''), (5, ''003-refC''),
                (7, ''004-refA'')]"
    by code_simp
  note th = renumbering_by_runs [OF h, THEN conjunct2, THEN conjunct1]
  have s: "snd (projr (sort_gene_editing_file renumber_sheet)) = (4, 5)"
    unfolding th n by simp
  have "map (\<lambda>row. cvalue (hd row)) (fst (projr (sort_gene_editing_file renumber_sheet)))
        = map (\<lambda>(row_idx, row). case map_of (row_to_new_seq (fst (number_groups ?hs 0 None))) row_idx of
                                   Some new_id \<Rightarrow> VStr new_id
                                 | None \<Rightarrow> cvalue (hd row))
            (enumerate 1 (load_workbook_plain renumber_sheet))"
    unfolding th by (simp add: comp_def case_prod_unfold split: option.splits)
  also have "\<dots> = [VStr ''001-refA'', VNone, VStr ''001-refA'', VStr ''002-refB'',
                   VStr ''003-refC'', VNone, VStr ''004-refA'']"
    unfolding ids by code_simp
  finally have v: "map (\<lambda>row. cvalue (hd row)) (fst (projr (sort_gene_editing_file renumber_sheet)))
        = [VStr ''001-refA'', VNone, VStr ''001-refA'', VStr ''002-refB'', VStr ''003-refC'',
           VNone, VStr ''004-refA'']" .
  have c: "renumber_sheet ! 6 ! 1 = filled ''FFFFFF00'' (VStr ''x'')" by code_simp
  have b: "6 < length renumber_sheet \<and> 1 < length (renumber_sheet ! 6)" by code_simp
  have p: "\<forall>parts. cvalue (renumber_sheet ! 6 ! 1) \<noteq> VRich parts"
    unfolding c by (simp add: filled_def)
  note pv = renumbering_by_runs [OF h, THEN conjunct2, THEN conjunct2, THEN conjunct2,
      THEN conjunct2, THEN conjunct2, THEN conjunct2, THEN conjunct2, THEN conjunct2,
      THEN conjunct2, THEN conjunct2, THEN conjunct2, THEN conjunct1, THEN spec, THEN spec,
      THEN mp, of 6 1]
  from b p
  have "fst (projr (sort_gene_editing_file renumber_sheet)) ! 6 ! 1 = renumber_sheet ! 6 ! 1"
    by (intro pv) simp
  then have k: "fst (projr (sort_gene_editing_file renumber_sheet)) ! 6 ! 1
                  = filled ''FFFFFF00'' (VStr ''x'')"
    unfolding c .
  from h n v s k show ?thesis by (intro conjI)
qed

text \<open>
  C8 as the spec words it fails: the two header rows of this sheet follow each other with
  the different identifiers \<^verbatim>\<open>007-refA\<close> and \<^verbatim>\<open>007-refB\<close>, and both get the number
  \<^verbatim>\<open>001\<close>; the counter moves only when the digits change.
\<close>

theorem same_digits_counterexample:
  "map (\<lambda>row. cvalue (hd row)) same_number_sheet = [VStr ''007-refA'', VNone, VStr ''007-refB'']
   \<and> sort_gene_editing_file same_number_sheet
       = Inr ([map plain [VStr ''001-refA''], wt_row, map plain [VStr ''001-refB'']], 1, 2)"
  by code_simp

end
